theory Spec2Isabelle
  imports Complex_Main "HOL-Library.AList" "HOL-Library.Sublist" "HOL-Library.Multiset"
begin

section \<open>Python values, exceptions and dictionaries\<close>

text \<open>
  The notebook \<^verbatim>\<open>capstone_project_guide.ipynb\<close> defines its transformations as Python
  functions that Spark applies row by row. An exception raised inside such a function is a
  value \<open>Inl e\<close> of the model; a normal return is \<open>Inr v\<close>. Python's \<open>None\<close> (a null
  column value) is \<open>None\<close> of an option type.
\<close>

datatype py_error = TypeError | ValueError | OverflowError | KeyError | AttributeError

text \<open>
  The values a column can hand to \<^verbatim>\<open>get_valid_country\<close>: null, an integer, a float (a
  finite one is the rational number it denotes; NaN and the infinities are separate), or a
  string of ASCII characters.
\<close>

datatype pyval = PNone | PInt int | PFloat rat | PNaN | PInf | PNegInf | PStr string

text \<open>
  A Python \<^verbatim>\<open>dict\<close> is an association list with distinct keys in insertion order:
  \<open>map_of\<close> is the lookup, \<open>AList.update\<close> is \<^verbatim>\<open>d[k] = v\<close> (a new key goes to the end,
  an existing key keeps its place), \<open>map fst\<close> is the iteration order.
\<close>

type_synonym ('k, 'v) dict = "('k \<times> 'v) list"

subsection \<open>Strings\<close>

text \<open>\<^verbatim>\<open>str.lower()\<close> on ASCII text: the letters A..Z get bit 5 set.\<close>

definition py_lower_char :: "char \<Rightarrow> char" where
  "py_lower_char c =
     (case c of Char b0 b1 b2 b3 b4 b5 b6 b7 \<Rightarrow>
        if 65 \<le> (of_char c :: nat) \<and> (of_char c :: nat) \<le> 90
        then Char b0 b1 b2 b3 b4 True b6 b7 else c)"

definition py_lower :: "string \<Rightarrow> string" where
  "py_lower s = map py_lower_char s"

text \<open>\<^verbatim>\<open>a in b\<close> for two strings: \<open>a\<close> occurs in \<open>b\<close> as a contiguous substring.\<close>

fun py_in :: "string \<Rightarrow> string \<Rightarrow> bool" where
  "py_in xs [] = (xs = [])"
| "py_in xs (y # ys) = (prefix xs (y # ys) \<or> py_in xs ys)"

text \<open>\<^verbatim>\<open>sep.join(parts)\<close> and \<^verbatim>\<open>s.split(sep)\<close> for a one-character separator.\<close>

fun join_with :: "'a \<Rightarrow> 'a list list \<Rightarrow> 'a list" where
  "join_with sep [] = []"
| "join_with sep [p] = p"
| "join_with sep (p # q # ps) = p @ sep # join_with sep (q # ps)"

fun split_on :: "'a \<Rightarrow> 'a list \<Rightarrow> 'a list list" where
  "split_on sep [] = [[]]"
| "split_on sep (x # xs) =
     (if x = sep then [] # split_on sep xs
      else (case split_on sep xs of [] \<Rightarrow> [[x]] | p # ps \<Rightarrow> (x # p) # ps))"

subsection \<open>The built-in \<^verbatim>\<open>int()\<close>\<close>

text \<open>
  \<^verbatim>\<open>int(s)\<close> on an ASCII string: optional white space, an optional sign, decimal digits
  that may be grouped by single underscores, optional white space. Anything else is a
  \<^verbatim>\<open>ValueError\<close>, here \<open>None\<close>.
\<close>

definition Py_ISSPACE :: "char \<Rightarrow> bool" where
  "Py_ISSPACE c \<longleftrightarrow> (of_char c :: nat) \<in> {9, 10, 11, 12, 13, 32}"

definition digit_value :: "char \<Rightarrow> nat option" where
  "digit_value c =
     (if 48 \<le> (of_char c :: nat) \<and> (of_char c :: nat) \<le> 57
      then Some ((of_char c :: nat) - 48) else None)"

fun scan_digits :: "char option \<Rightarrow> int \<Rightarrow> string \<Rightarrow> int option" where
  "scan_digits prev acc [] =
     (if prev = None \<or> prev = Some (CHR ''_'') then None else Some acc)"
| "scan_digits prev acc (c # cs) =
     (if c = CHR ''_''
      then (if prev = None \<or> prev = Some (CHR ''_'') then None
            else scan_digits (Some c) acc cs)
      else (case digit_value c of
              None \<Rightarrow> None
            | Some d \<Rightarrow> scan_digits (Some c) (acc * 10 + int d) cs))"

definition py_int_of_str :: "string \<Rightarrow> int option" where
  "py_int_of_str s =
     (let s1 = dropWhile Py_ISSPACE s;
          (sign, s2) = (case s1 of
                          [] \<Rightarrow> (1, s1)
                        | c # r \<Rightarrow> if c = CHR ''+'' then (1, r)
                                   else if c = CHR ''-'' then (- 1, r) else (1, s1));
          s3 = rev (dropWhile Py_ISSPACE (rev s2))
      in map_option (\<lambda>k. sign * k) (scan_digits None 0 s3))"

text \<open>
  \<^verbatim>\<open>int(x)\<close>: \<^verbatim>\<open>None\<close> has no integer conversion (\<^verbatim>\<open>TypeError\<close>), a finite float is
  truncated towards zero, NaN is a \<^verbatim>\<open>ValueError\<close> and an infinity an
  \<^verbatim>\<open>OverflowError\<close>.
\<close>

definition py_int :: "pyval \<Rightarrow> py_error + int" where
  "py_int x =
     (case x of
        PNone \<Rightarrow> Inl TypeError
      | PInt k \<Rightarrow> Inr k
      | PFloat q \<Rightarrow> Inr (if 0 \<le> q then \<lfloor>q\<rfloor> else \<lceil>q\<rceil>)
      | PNaN \<Rightarrow> Inl ValueError
      | PInf \<Rightarrow> Inl OverflowError
      | PNegInf \<Rightarrow> Inl OverflowError
      | PStr s \<Rightarrow> (case py_int_of_str s of None \<Rightarrow> Inl ValueError | Some k \<Rightarrow> Inr k))"

text \<open>
  \<^verbatim>\<open>d[x]\<close> on a dictionary whose keys are integers: an integer or a float finds the key
  it is numerically equal to; every other value, and a number equal to no key, raises
  \<^verbatim>\<open>KeyError\<close>.
\<close>

definition dict_getitem :: "(int, 'v) dict \<Rightarrow> pyval \<Rightarrow> py_error + 'v" where
  "dict_getitem d x =
     (let lookup = (\<lambda>k. case map_of d k of None \<Rightarrow> Inl KeyError | Some v \<Rightarrow> Inr v)
      in case x of
           PInt k \<Rightarrow> lookup k
         | PFloat q \<Rightarrow> if q = of_int \<lfloor>q\<rfloor> then lookup \<lfloor>q\<rfloor> else Inl KeyError
         | _ \<Rightarrow> Inl KeyError)"

section \<open>PortResolver: \<^verbatim>\<open>city_to_port\<close>\<close>

text \<open>
  \<^verbatim>\<open>
  def city_to_port(city):
      for key in valid_ports:
          if city.lower() in valid_ports[key].lower():
              return key
  \<close>
  The global \<^verbatim>\<open>valid_ports\<close> is a parameter. The left operand \<^verbatim>\<open>city.lower()\<close> is
  evaluated first, in the loop body; on \<^verbatim>\<open>None\<close> it raises \<^verbatim>\<open>AttributeError\<close>.
  Falling off the end of the loop returns \<^verbatim>\<open>None\<close>.
\<close>

fun city_to_port_loop ::
  "(string, string) dict \<Rightarrow> string list \<Rightarrow> string option \<Rightarrow> py_error + string option" where
  "city_to_port_loop valid_ports [] city = Inr None"
| "city_to_port_loop valid_ports (key # keys) city =
     (case city of
        None \<Rightarrow> Inl AttributeError
      | Some c \<Rightarrow>
          (case map_of valid_ports key of
             None \<Rightarrow> Inl KeyError
           | Some label \<Rightarrow>
               if py_in (py_lower c) (py_lower label) then Inr (Some key)
               else city_to_port_loop valid_ports keys city))"

definition city_to_port :: "(string, string) dict \<Rightarrow> string option \<Rightarrow> py_error + string option" where
  "city_to_port valid_ports city = city_to_port_loop valid_ports (map fst valid_ports) city"

text \<open>
  The specification's wording of the match, for comparison with the code: the city name
  occurs in the label as a substring, letter case ignored.
\<close>

definition ci_substring :: "string \<Rightarrow> string \<Rightarrow> bool" where
  "ci_substring city label \<longleftrightarrow>
     (\<exists>pre mid suf. label = pre @ mid @ suf \<and> length mid = length city \<and>
        (\<forall>i<length city. py_lower_char (mid ! i) = py_lower_char (city ! i)))"

section \<open>ReferenceCatalogParser: \<^verbatim>\<open>get_valid_airport_list\<close>\<close>

text \<open>
  \<^verbatim>\<open>re.compile(r"\'(.*)\'.*\'(.*)\'").search(line)\<close>. The dot matches no newline, so a
  match lies between two newlines; it needs four quotes there. The search is leftmost
  and every star is greedy: in the first piece with \<open>n \<ge> 4\<close> quotes the match starts at
  the first quote, group 1 runs up to quote \<open>n - 2\<close>, and group 2 is the text between the
  last two quotes. \<open>None\<close> is \<^verbatim>\<open>search\<close> returning \<^verbatim>\<open>None\<close>.
\<close>

definition quoted_pair :: "string \<Rightarrow> (string \<times> string) option" where
  "quoted_pair piece =
     (let parts = split_on (CHR 0x27) piece; n = length parts - 1
      in if n < 4 then None
         else Some (join_with (CHR 0x27) (take (n - 3) (drop 1 parts)), parts ! (n - 1)))"

definition re_search_quoted_pair :: "string \<Rightarrow> (string \<times> string) option" where
  "re_search_quoted_pair line =
     (case filter (\<lambda>r. r \<noteq> None) (map quoted_pair (split_on (CHR 0x0A) line)) of
        [] \<Rightarrow> None
      | r # _ \<Rightarrow> r)"

text \<open>\<^verbatim>\<open>re.sub("(\s+)", "", label)\<close> deletes every white-space character (ASCII text).\<close>

definition re_space :: "char \<Rightarrow> bool" where
  "re_space c \<longleftrightarrow> (of_char c :: nat) \<in> {9, 10, 11, 12, 13, 28, 29, 30, 31, 32}"

definition re_sub_spaces :: "string \<Rightarrow> string" where
  "re_sub_spaces label = filter (\<lambda>c. \<not> re_space c) label"

text \<open>
  \<^verbatim>\<open>
  valid_airports = {}
  for line in lines[302:893]:
      results = re_compiled.search(line)
      if 'UNKNOWN' or 'UNIDENTIFIED' or 'NOT REPORTED' in results.group(2):
          pass
      valid_airports[results.group(1)] = re.sub("(\s+)", "", results.group(2))
  return valid_airports
  \<close>
  The condition of the \<^verbatim>\<open>if\<close> is \<^verbatim>\<open>'UNKNOWN' or (...)\<close>: the non-empty string
  \<^verbatim>\<open>'UNKNOWN'\<close> is true, so the right operands are never evaluated, and the branch is
  \<^verbatim>\<open>pass\<close>. On a line without a match \<^verbatim>\<open>results\<close> is \<^verbatim>\<open>None\<close> and
  \<^verbatim>\<open>results.group(1)\<close> raises \<^verbatim>\<open>AttributeError\<close>.
\<close>

definition unknown_label_test :: "string \<Rightarrow> bool" where
  "unknown_label_test label \<longleftrightarrow>
     ''UNKNOWN'' \<noteq> [] \<or> ''UNIDENTIFIED'' \<noteq> [] \<or> py_in ''NOT REPORTED'' label"

fun airport_loop :: "(string, string) dict \<Rightarrow> string list \<Rightarrow> py_error + (string, string) dict" where
  "airport_loop valid_airports [] = Inr valid_airports"
| "airport_loop valid_airports (line # rest) =
     (case re_search_quoted_pair line of
        None \<Rightarrow> Inl AttributeError
      | Some (group1, group2) \<Rightarrow>
          (let valid_airports' =
                 (if unknown_label_test group2 then valid_airports else valid_airports)
           in airport_loop (AList.update group1 (re_sub_spaces group2) valid_airports') rest))"

definition get_valid_airport_list :: "string list \<Rightarrow> py_error + (string, string) dict" where
  "get_valid_airport_list lines = airport_loop [] (drop 302 (take 893 lines))"

text \<open>
  The specification's wording, for comparison: the port entry that a line matching the
  quoted-pair pattern describes is its code with its label, white space removed.
\<close>

definition port_entry :: "string \<Rightarrow> (string \<times> string) option" where
  "port_entry line =
     map_option (\<lambda>(code, label). (code, re_sub_spaces label)) (re_search_quoted_pair line)"

section \<open>FieldNormalizers\<close>

text \<open>
  \<^verbatim>\<open>
  def get_valid_port(x):
      if x in valid_ports.keys(): return x
      else: return "Other"
  \<close>
\<close>

definition get_valid_port :: "(string, string) dict \<Rightarrow> string option \<Rightarrow> string" where
  "get_valid_port valid_ports x =
     (case x of
        None \<Rightarrow> ''Other''
      | Some code \<Rightarrow> if code \<in> set (map fst valid_ports) then code else ''Other'')"

text \<open>
  \<^verbatim>\<open>
  def get_valid_country(x):
      if int(x) in valid_countries.keys(): return valid_countries[x]
      else: return "Other"
  \<close>
  The membership test uses \<^verbatim>\<open>int(x)\<close>, the lookup uses \<^verbatim>\<open>x\<close> itself.
\<close>

definition get_valid_country :: "(int, string) dict \<Rightarrow> pyval \<Rightarrow> py_error + string" where
  "get_valid_country valid_countries x =
     (case py_int x of
        Inl e \<Rightarrow> Inl e
      | Inr k \<Rightarrow>
          if k \<in> set (map fst valid_countries) then dict_getitem valid_countries x
          else Inr ''Other'')"

text \<open>
  \<^verbatim>\<open>convert_mode\<close> and \<^verbatim>\<open>convert_visa\<close>: a dictionary lookup with a default. The
  columns \<^verbatim>\<open>i94mode\<close> and \<^verbatim>\<open>i94visa\<close> hold whole numbers (stored as doubles), so the
  argument is an integer or null.
\<close>

definition mode_dict :: "(int, string) dict" where
  "mode_dict = [(1, ''Air''), (2, ''Sea''), (3, ''Land''), (9, ''Not reported'')]"

definition convert_mode :: "int option \<Rightarrow> string" where
  "convert_mode x =
     (case x of
        None \<Rightarrow> ''Not reported''
      | Some k \<Rightarrow> (case map_of mode_dict k of Some v \<Rightarrow> v | None \<Rightarrow> ''Not reported''))"

definition visa_dict :: "(int, string) dict" where
  "visa_dict = [(1, ''Business''), (2, ''Pleasure''), (3, ''Student'')]"

definition convert_visa :: "int option \<Rightarrow> string" where
  "convert_visa x =
     (case x of
        None \<Rightarrow> ''Unknown''
      | Some k \<Rightarrow> (case map_of visa_dict k of Some v \<Rightarrow> v | None \<Rightarrow> ''Unknown''))"

subsection \<open>Calendar dates: the \<^verbatim>\<open>datetime\<close> module\<close>

text \<open>
  \<^verbatim>\<open>convert_to_datetime\<close> calls \<^verbatim>\<open>datetime(1960, 1, 1).date() + timedelta(x)\<close> and
  \<^verbatim>\<open>isoformat()\<close>. These are the library's definitions (proleptic Gregorian calendar,
  day 1 is 0001-01-01). A date is a triple (year, month, day).
\<close>

definition is_leap :: "int \<Rightarrow> bool" where
  "is_leap year \<longleftrightarrow> year mod 4 = 0 \<and> (year mod 100 \<noteq> 0 \<or> year mod 400 = 0)"

definition DAYS_IN_MONTH :: "int list" where
  "DAYS_IN_MONTH = [- 1, 31, 28, 31, 30, 31, 30, 31, 31, 30, 31, 30, 31]"

definition DAYS_BEFORE_MONTH :: "int list" where
  "DAYS_BEFORE_MONTH = [- 1, 0, 31, 59, 90, 120, 151, 181, 212, 243, 273, 304, 334]"

definition days_before_year :: "int \<Rightarrow> int" where
  "days_before_year year = (let y = year - 1 in y * 365 + y div 4 - y div 100 + y div 400)"

definition days_in_month :: "int \<Rightarrow> int \<Rightarrow> int" where
  "days_in_month year month =
     (if month = 2 \<and> is_leap year then 29 else DAYS_IN_MONTH ! nat month)"

definition days_before_month :: "int \<Rightarrow> int \<Rightarrow> int" where
  "days_before_month year month =
     DAYS_BEFORE_MONTH ! nat month + (if month > 2 \<and> is_leap year then 1 else 0)"

definition ymd2ord :: "int \<Rightarrow> int \<Rightarrow> int \<Rightarrow> int" where
  "ymd2ord year month day = days_before_year year + days_before_month year month + day"

definition DI400Y :: int where "DI400Y = 146097"
definition DI100Y :: int where "DI100Y = 36524"
definition DI4Y :: int where "DI4Y = 1461"

text \<open>
  The second half of \<^verbatim>\<open>_ord2ymd\<close>: \<open>n\<close> is the zero-based day of the year; the month is
  estimated as \<^verbatim>\<open>(n + 50) >> 5\<close> and corrected when the estimate is too large.
\<close>

definition month_day :: "bool \<Rightarrow> int \<Rightarrow> int \<times> int" where
  "month_day leapyear n =
     (let month = (n + 50) div 32;
          preceding = DAYS_BEFORE_MONTH ! nat month + (if month > 2 \<and> leapyear then 1 else 0)
      in if preceding > n
         then (let month' = month - 1;
                   preceding' = preceding - (DAYS_IN_MONTH ! nat month'
                                             + (if month' = 2 \<and> leapyear then 1 else 0))
               in (month', n - preceding' + 1))
         else (month, n - preceding + 1))"

definition ord2ymd :: "int \<Rightarrow> int \<times> int \<times> int" where
  "ord2ymd ordinal =
     (let n = ordinal - 1;
          n400 = n div DI400Y; n = n mod DI400Y;
          year = n400 * 400 + 1;
          n100 = n div DI100Y; n = n mod DI100Y;
          n4 = n div DI4Y; n = n mod DI4Y;
          n1 = n div 365; n = n mod 365;
          year = year + n100 * 100 + n4 * 4 + n1
      in if n1 = 4 \<or> n100 = 4 then (year - 1, 12, 31)
         else (let leapyear = (n1 = 3 \<and> (n4 \<noteq> 24 \<or> n100 = 3));
                   (month, day) = month_day leapyear n
               in (year, month, day)))"

definition MAXORDINAL :: int where "MAXORDINAL = 3652059"

text \<open>
  \<^verbatim>\<open>date + timedelta(days)\<close> for a whole number of days: \<^verbatim>\<open>timedelta\<close> refuses more
  than 999999999 days, and the sum must be a date of the years 1 to 9999; both failures are
  \<^verbatim>\<open>OverflowError\<close>.
\<close>

definition date_add :: "int \<times> int \<times> int \<Rightarrow> int \<Rightarrow> py_error + int \<times> int \<times> int" where
  "date_add dt days =
     (case dt of (year, month, day) \<Rightarrow>
        if \<bar>days\<bar> > 999999999 then Inl OverflowError
        else (let ordinal = ymd2ord year month day + days
              in if 0 < ordinal \<and> ordinal \<le> MAXORDINAL then Inr (ord2ymd ordinal)
                 else Inl OverflowError))"

text \<open>\<^verbatim>\<open>"%04d-%02d-%02d" % (year, month, day)\<close>: decimal digits, padded with zeros.\<close>

definition digit_char :: "nat \<Rightarrow> char" where
  "digit_char d = ''0123456789'' ! d"

fun dec_digits :: "nat \<Rightarrow> string" where
  "dec_digits n = (if n < 10 then [digit_char n] else dec_digits (n div 10) @ [digit_char (n mod 10)])"

declare dec_digits.simps [simp del]

definition zero_padded :: "nat \<Rightarrow> int \<Rightarrow> string" where
  "zero_padded width n =
     (let s = dec_digits (nat \<bar>n\<bar>);
          s' = replicate (width - (length s + (if n < 0 then 1 else 0))) (CHR ''0'') @ s
      in if n < 0 then CHR ''-'' # s' else s')"

definition isoformat :: "int \<times> int \<times> int \<Rightarrow> string" where
  "isoformat dt =
     (case dt of (year, month, day) \<Rightarrow>
        zero_padded 4 year @ ''-'' @ zero_padded 2 month @ ''-'' @ zero_padded 2 day)"

text \<open>
  \<^verbatim>\<open>
  def convert_to_datetime(x):
      if x:
          return (datetime(1960, 1, 1).date() + timedelta(x)).isoformat()
      return None
  \<close>
  The columns \<^verbatim>\<open>arrdate\<close> and \<^verbatim>\<open>depdate\<close> count whole days, so \<open>x\<close> is an integer or
  null. \<^verbatim>\<open>if x\<close> is false for \<^verbatim>\<open>None\<close> and for zero.
\<close>

definition convert_to_datetime :: "int option \<Rightarrow> py_error + string option" where
  "convert_to_datetime x =
     (case x of
        None \<Rightarrow> Inr None
      | Some days \<Rightarrow>
          if days \<noteq> 0
          then (case date_add (1960, 1, 1) days of
                  Inl e \<Rightarrow> Inl e
                | Inr dt \<Rightarrow> Inr (Some (isoformat dt)))
          else Inr None)"

subsection \<open>The specification's wording: the epoch plus a number of days\<close>

text \<open>
  For comparison with the code. A month and a day are valid in a year when the month
  is one of the twelve and the day is one of that month's days. The day after a date is
  the next day of the month, else the first of the next month, else the first of
  January of the next year. A date lies \<open>days\<close> days after \<open>start\<close> when that many
  steps lead from \<open>start\<close> to it (for a negative number, from it to \<open>start\<close>).
\<close>

definition valid_month_day :: "int \<Rightarrow> int \<Rightarrow> int \<Rightarrow> bool" where
  "valid_month_day y m d \<longleftrightarrow> 1 \<le> m \<and> m \<le> 12 \<and> 1 \<le> d \<and> d \<le> days_in_month y m"

definition next_day :: "int \<times> int \<times> int \<Rightarrow> int \<times> int \<times> int" where
  "next_day dt =
     (case dt of (y, m, d) \<Rightarrow>
        if d < days_in_month y m then (y, m, d + 1)
        else if m < 12 then (y, m + 1, 1)
        else (y + 1, 1, 1))"

definition days_after :: "int \<times> int \<times> int \<Rightarrow> int \<Rightarrow> int \<times> int \<times> int \<Rightarrow> bool" where
  "days_after start days dt \<longleftrightarrow>
     (if 0 \<le> days then dt = (next_day ^^ nat days) start
      else start = (next_day ^^ nat (- days)) dt)"

section \<open>RecordCleaner\<close>

text \<open>
  A row of the immigration table, with the columns the notebook reads. The numeric columns
  are doubles that hold whole numbers; every column is nullable.
\<close>

record raw_immigration =
  cicid :: "int option"
  i94yr :: "int option"
  i94mon :: "int option"
  i94res :: "int option"
  i94port :: "string option"
  arrdate :: "int option"
  i94mode :: "int option"
  i94addr :: "string option"
  depdate :: "int option"
  i94bir :: "int option"
  i94visa :: "int option"
  airline :: "string option"
  fltno :: "string option"
  visatype :: "string option"
  gender :: "string option"

text \<open>
  A row after \<^verbatim>\<open>.select(...)\<close>: the fourteen selected columns. The column
  \<^verbatim>\<open>departure_date\<close> is added by \<^verbatim>\<open>withColumn\<close> but is not in the select list, so the
  cleaned row has no such field.
\<close>

record cleaned_immigration =
  immigration_id :: "int option"
  immigration_year :: "int option"
  immigration_month :: "int option"
  origin_country :: string
  arrival_port :: string
  arrival_date :: "string option"
  port_type :: string
  state_of_residence :: "string option"
  immigrant_age :: "int option"
  visitor_type :: string
  airline_code :: "string option"
  airline_flight_number :: "string option"
  visa_type :: "string option"
  cleaned_gender :: "string option"

text \<open>
  The \<^verbatim>\<open>withColumnRenamed\<close>/\<^verbatim>\<open>withColumn\<close> chain and the \<^verbatim>\<open>select\<close>, for one row.
  Spark hands a double to the Python function as a float. An exception in a function
  fails the row.
\<close>

definition udf_arg :: "int option \<Rightarrow> pyval" where
  "udf_arg x = (case x of None \<Rightarrow> PNone | Some k \<Rightarrow> PFloat (of_int k))"

definition select_columns ::
  "(int, string) dict \<Rightarrow> (string, string) dict \<Rightarrow> raw_immigration \<Rightarrow> py_error + cleaned_immigration" where
  "select_columns valid_countries valid_ports r =
     (case get_valid_country valid_countries (udf_arg (i94res r)) of
        Inl e \<Rightarrow> Inl e
      | Inr country \<Rightarrow>
          (case convert_to_datetime (arrdate r) of
             Inl e \<Rightarrow> Inl e
           | Inr arrival \<Rightarrow>
               Inr \<lparr> immigration_id = cicid r,
                     immigration_year = i94yr r,
                     immigration_month = i94mon r,
                     origin_country = country,
                     arrival_port = get_valid_port valid_ports (i94port r),
                     arrival_date = arrival,
                     port_type = convert_mode (i94mode r),
                     state_of_residence = i94addr r,
                     immigrant_age = i94bir r,
                     visitor_type = convert_visa (i94visa r),
                     airline_code = airline r,
                     airline_flight_number = fltno r,
                     visa_type = visatype r,
                     cleaned_gender = gender r \<rparr>))"

text \<open>All rows: the first failing row fails the job.\<close>

fun select_all ::
  "(int, string) dict \<Rightarrow> (string, string) dict \<Rightarrow> raw_immigration list \<Rightarrow>
   py_error + cleaned_immigration list" where
  "select_all valid_countries valid_ports [] = Inr []"
| "select_all valid_countries valid_ports (r # rs) =
     (case select_columns valid_countries valid_ports r of
        Inl e \<Rightarrow> Inl e
      | Inr c \<Rightarrow>
          (case select_all valid_countries valid_ports rs of
             Inl e \<Rightarrow> Inl e
           | Inr cs \<Rightarrow> Inr (c # cs)))"

text \<open>
  \<^verbatim>\<open>.filter("arrival_port='Air'")\<close>: the condition names the column \<^verbatim>\<open>arrival_port\<close>
  and compares it with the string \<^verbatim>\<open>'Air'\<close>.
\<close>

definition filter_rows :: "cleaned_immigration list \<Rightarrow> cleaned_immigration list" where
  "filter_rows rows = filter (\<lambda>c. arrival_port c = ''Air'') rows"

text \<open>
  \<^verbatim>\<open>
  .fillna({'immigrant_age' : -1, 'state_of_residence' : 'unknown', 'airline_code' : 'Unkown',
           'airline_flight_number' : 'Unknown', 'gender' : 'X'})
  \<close>
\<close>

definition fill :: "'a \<Rightarrow> 'a option \<Rightarrow> 'a option" where
  "fill v x = (case x of None \<Rightarrow> Some v | Some y \<Rightarrow> Some y)"

definition fillna :: "cleaned_immigration \<Rightarrow> cleaned_immigration" where
  "fillna c =
     c \<lparr> immigrant_age := fill (- 1) (immigrant_age c),
         state_of_residence := fill ''unknown'' (state_of_residence c),
         airline_code := fill ''Unkown'' (airline_code c),
         airline_flight_number := fill ''Unknown'' (airline_flight_number c),
         cleaned_gender := fill ''X'' (cleaned_gender c) \<rparr>"

text \<open>The table \<^verbatim>\<open>immigration_df_clean\<close> before the surrogate key is added.\<close>

definition immigration_df_clean ::
  "(int, string) dict \<Rightarrow> (string, string) dict \<Rightarrow> raw_immigration list \<Rightarrow>
   py_error + cleaned_immigration list" where
  "immigration_df_clean valid_countries valid_ports rows =
     (case select_all valid_countries valid_ports rows of
        Inl e \<Rightarrow> Inl e
      | Inr cs \<Rightarrow> Inr (map fillna (filter_rows cs)))"

section \<open>SurrogateKeyAssigner\<close>

text \<open>
  \<^verbatim>\<open>select row_number() over (order by "immigration_id") as immigrant_id, * from ...\<close>.
  The sort key is a constant, so the engine may put the rows in any order;
  \<open>row_number\<close> numbers the rows of the order it is given, starting at 1.
\<close>

definition row_number :: "'a list \<Rightarrow> (int \<times> 'a) list" where
  "row_number ordered_rows = zip [1..int (length ordered_rows)] ordered_rows"

section \<open>Example inputs\<close>

text \<open>Two small catalogs with entries of the code book, whitespace removed.\<close>

definition example_countries :: "(int, string) dict" where
  "example_countries = [(117, ''ECUADOR''), (276, ''SOUTHKOREA'')]"

definition example_ports :: "(string, string) dict" where
  "example_ports = [(''ATL'', ''ATLANTA,GA''), (''NYC'', ''NEWYORK,NY'')]"

text \<open>The row of the specification's end-to-end example; the columns it does not name are null.\<close>

definition example_row :: raw_immigration where
  "example_row =
     \<lparr> cicid = None, i94yr = None, i94mon = None, i94res = Some 117,
       i94port = Some ''XXX'', arrdate = Some 20574, i94mode = Some 1, i94addr = None,
       depdate = None, i94bir = Some 37, i94visa = Some 2, airline = None, fltno = None,
       visatype = None, gender = None \<rparr>"

text \<open>Five arrivals at New York, one for each transport mode code and one without a code.\<close>

definition mixed_mode_rows :: "raw_immigration list" where
  "mixed_mode_rows =
     map (\<lambda>m. example_row \<lparr> i94port := Some ''NYC'', i94mode := m \<rparr>)
       [Some 1, Some 2, Some 3, Some 9, None]"

text \<open>A cleaned row in which every nullable column is null.\<close>

definition all_null_row :: cleaned_immigration where
  "all_null_row =
     \<lparr> immigration_id = None, immigration_year = None, immigration_month = None,
       origin_country = ''Other'', arrival_port = ''Air'', arrival_date = None,
       port_type = ''Not reported'', state_of_residence = None, immigrant_age = None,
       visitor_type = ''Unknown'', airline_code = None, airline_flight_number = None,
       visa_type = None, cleaned_gender = None \<rparr>"

text \<open>
  A code book of 304 lines: 302 comment lines, then two port entries in the layout of
  the label file, the first one a placeholder for unreported ports.
\<close>

definition port_line :: "string \<Rightarrow> string \<Rightarrow> string" where
  "port_line code label =
     ''   '' @ [CHR 0x27] @ code @ [CHR 0x27, CHR 0x09] @ ''='' @ [CHR 0x09, CHR 0x27] @ label @
     [CHR 0x27, CHR 0x0A]"

definition example_code_book :: "string list" where
  "example_code_book =
     replicate 302 (''/* I94 */'' @ [CHR 0x0A]) @
     [port_line ''XXX'' ''NOT REPORTED/UNKNOWN  '', port_line ''ALC'' ''ALCAN, AK             '']"

section \<open>Properties of the calendar functions\<close>

subsection \<open>Month and day from the day of the year\<close>

lemma month_day_at:
  "(n + 50) div 32 = k \<Longrightarrow>
   month_day leap n =
     (if DAYS_BEFORE_MONTH ! nat k + (if k > 2 \<and> leap then 1 else 0) > n
      then (k - 1, n - (DAYS_BEFORE_MONTH ! nat k + (if k > 2 \<and> leap then 1 else 0)
                        - (DAYS_IN_MONTH ! nat (k - 1) + (if k - 1 = 2 \<and> leap then 1 else 0))) + 1)
      else (k, n - (DAYS_BEFORE_MONTH ! nat k + (if k > 2 \<and> leap then 1 else 0)) + 1))"
  by (simp add: month_day_def Let_def)

lemma upto_1_12: "[1..12::int] = [1, 2, 3, 4, 5, 6, 7, 8, 9, 10, 11, 12]"
  by (simp add: upto.simps)

lemma month_estimate:
  assumes "0 \<le> (n::int)" "n \<le> 364"
  shows "(n + 50) div 32 \<in> {1, 2, 3, 4, 5, 6, 7, 8, 9, 10, 11, 12}"
proof -
  have "1 \<le> (n + 50) div 32" "(n + 50) div 32 \<le> 12"
    using assms by linarith+
  then have "(n + 50) div 32 \<in> set [1..12]" by simp
  then show ?thesis unfolding upto_1_12 by simp
qed

lemma month_day_correct:
  assumes "0 \<le> (n::int)" "n \<le> 364" "month_day leap n = (m, d)"
  shows "1 \<le> m \<and> m \<le> 12 \<and> 1 \<le> d \<and>
         d \<le> DAYS_IN_MONTH ! nat m + (if m = 2 \<and> leap then 1 else 0) \<and>
         DAYS_BEFORE_MONTH ! nat m + (if m > 2 \<and> leap then 1 else 0) + d = n + 1"
proof -
  define k where "k = (n + 50) div 32"
  have k: "k \<in> {1, 2, 3, 4, 5, 6, 7, 8, 9, 10, 11, 12}"
    unfolding k_def using assms(1,2) by (rule month_estimate)
  have bounds: "32 * k \<le> n + 50" "n + 50 < 32 * k + 32"
    unfolding k_def by linarith+
  note md = month_day_at [of n k leap, OF k_def [symmetric]]
  from k show ?thesis
  proof (elim insertE emptyE)
    assume "k = 1" with md assms bounds show ?thesis
      by (cases leap) (simp_all add: DAYS_BEFORE_MONTH_def DAYS_IN_MONTH_def split: if_splits)
  next
    assume "k = 2" with md assms bounds show ?thesis
      by (cases leap) (simp_all add: DAYS_BEFORE_MONTH_def DAYS_IN_MONTH_def split: if_splits)
  next
    assume "k = 3" with md assms bounds show ?thesis
      by (cases leap) (simp_all add: DAYS_BEFORE_MONTH_def DAYS_IN_MONTH_def split: if_splits)
  next
    assume "k = 4" with md assms bounds show ?thesis
      by (cases leap) (simp_all add: DAYS_BEFORE_MONTH_def DAYS_IN_MONTH_def split: if_splits)
  next
    assume "k = 5" with md assms bounds show ?thesis
      by (cases leap) (simp_all add: DAYS_BEFORE_MONTH_def DAYS_IN_MONTH_def split: if_splits)
  next
    assume "k = 6" with md assms bounds show ?thesis
      by (cases leap) (simp_all add: DAYS_BEFORE_MONTH_def DAYS_IN_MONTH_def split: if_splits)
  next
    assume "k = 7" with md assms bounds show ?thesis
      by (cases leap) (simp_all add: DAYS_BEFORE_MONTH_def DAYS_IN_MONTH_def split: if_splits)
  next
    assume "k = 8" with md assms bounds show ?thesis
      by (cases leap) (simp_all add: DAYS_BEFORE_MONTH_def DAYS_IN_MONTH_def split: if_splits)
  next
    assume "k = 9" with md assms bounds show ?thesis
      by (cases leap) (simp_all add: DAYS_BEFORE_MONTH_def DAYS_IN_MONTH_def split: if_splits)
  next
    assume "k = 10" with md assms bounds show ?thesis
      by (cases leap) (simp_all add: DAYS_BEFORE_MONTH_def DAYS_IN_MONTH_def split: if_splits)
  next
    assume "k = 11" with md assms bounds show ?thesis
      by (cases leap) (simp_all add: DAYS_BEFORE_MONTH_def DAYS_IN_MONTH_def split: if_splits)
  next
    assume "k = 12" with md assms bounds show ?thesis
      by (cases leap) (simp_all add: DAYS_BEFORE_MONTH_def DAYS_IN_MONTH_def split: if_splits)
  qed
qed

subsection \<open>The year from the day number\<close>

lemma div_known: "0 \<le> r \<Longrightarrow> r < k \<Longrightarrow> (k * q + r) div k = (q::int)"
  by (simp add: div_pos_pos_trivial)

lemma mod_known: "0 \<le> r \<Longrightarrow> r < k \<Longrightarrow> (k * q + r) mod k = (r::int)"
  by (simp add: mod_pos_pos_trivial)

lemma days_before_year_split:
  fixes a b c e :: int
  assumes "0 \<le> b" "b \<le> 3" "0 \<le> c" "c \<le> 24" "0 \<le> e" "e \<le> 3"
  shows "days_before_year (400 * a + 100 * b + 4 * c + e + 1) =
           146097 * a + 36524 * b + 1461 * c + 365 * e"
proof -
  let ?y = "400 * a + 100 * b + 4 * c + e"
  have d4: "?y div 4 = 100 * a + 25 * b + c"
    using div_known [of e 4 "100 * a + 25 * b + c"] assms by (simp add: algebra_simps)
  have d100: "?y div 100 = 4 * a + b"
    using div_known [of "4 * c + e" 100 "4 * a + b"] assms by (simp add: algebra_simps)
  have d400: "?y div 400 = a"
    using div_known [of "100 * b + 4 * c + e" 400 a] assms by (simp add: algebra_simps)
  show ?thesis
    unfolding days_before_year_def Let_def by (simp add: d4 d100 d400)
qed

lemma is_leap_split:
  fixes a b c e :: int
  assumes "0 \<le> b" "b \<le> 3" "0 \<le> c" "c \<le> 24" "0 \<le> e" "e \<le> 3"
  shows "is_leap (400 * a + 100 * b + 4 * c + e + 1) \<longleftrightarrow> e = 3 \<and> (c \<noteq> 24 \<or> b = 3)"
proof (cases "e = 3")
  case False
  with assms have "0 \<le> e + 1" "e + 1 < 4" by simp_all
  from mod_known [OF this, of "100 * a + 25 * b + c"]
  have "(400 * a + 100 * b + 4 * c + e + 1) mod 4 = e + 1"
    by (simp add: algebra_simps)
  with assms False show ?thesis by (simp add: is_leap_def)
next
  case True
  have m4: "(400 * a + 100 * b + 4 * c + e + 1) mod 4 = 0"
    using mod_known [of 0 4 "100 * a + 25 * b + c + 1"] True by (simp add: algebra_simps)
  show ?thesis
  proof (cases "c = 24")
    case c24: True
    have m100: "(400 * a + 100 * b + 4 * c + e + 1) mod 100 = 0"
      using mod_known [of 0 100 "4 * a + b + 1"] True c24 by (simp add: algebra_simps)
    show ?thesis
    proof (cases "b = 3")
      case b3: True
      have "(400 * a + 100 * b + 4 * c + e + 1) mod 400 = 0"
        using mod_known [of 0 400 "a + 1"] True c24 b3 by (simp add: algebra_simps)
      with m4 True c24 b3 show ?thesis by (simp add: is_leap_def)
    next
      case False
      with assms have "0 \<le> 100 * (b + 1)" "100 * (b + 1) < 400" by simp_all
      from mod_known [OF this, of a]
      have "(400 * a + 100 * b + 4 * c + e + 1) mod 400 = 100 * (b + 1)"
        using True c24 by (simp add: algebra_simps)
      with assms have "(400 * a + 100 * b + 4 * c + e + 1) mod 400 \<noteq> 0" by simp
      with m100 True c24 False show ?thesis by (simp add: is_leap_def)
    qed
  next
    case False
    with assms have "0 \<le> 4 * (c + 1)" "4 * (c + 1) < 100" by simp_all
    from mod_known [OF this, of "4 * a + b"]
    have "(400 * a + 100 * b + 4 * c + e + 1) mod 100 = 4 * (c + 1)"
      using True by (simp add: algebra_simps)
    with assms have "(400 * a + 100 * b + 4 * c + e + 1) mod 100 \<noteq> 0" by simp
    with m4 True False show ?thesis by (simp add: is_leap_def)
  qed
qed

text \<open>
  The date that \<open>ord2ymd\<close> computes is valid and has the given day number; a day number
  of the years 1 to 9999 gives a year in that range.
\<close>

lemma ord2ymd_valid:
  assumes "ord2ymd n = (y, m, d)"
  shows "1 \<le> m \<and> m \<le> 12 \<and> 1 \<le> d \<and> d \<le> days_in_month y m \<and> ymd2ord y m d = n \<and>
         (1 \<le> n \<and> n \<le> MAXORDINAL \<longrightarrow> 1 \<le> y \<and> y \<le> 9999)"
proof -
  define a where "a = (n - 1) div 146097"
  define r1 where "r1 = (n - 1) mod 146097"
  define b where "b = r1 div 36524"
  define r2 where "r2 = r1 mod 36524"
  define c where "c = r2 div 1461"
  define r3 where "r3 = r2 mod 1461"
  define e where "e = r3 div 365"
  define f where "f = r3 mod 365"
  define L where "L \<longleftrightarrow> e = 3 \<and> (c \<noteq> 24 \<or> b = 3)"
  have s1: "n - 1 = 146097 * a + r1" "0 \<le> r1" "r1 < 146097"
    unfolding a_def r1_def by simp_all
  have s2: "r1 = 36524 * b + r2" "0 \<le> r2" "r2 < 36524"
    unfolding b_def r2_def by simp_all
  have s3: "r2 = 1461 * c + r3" "0 \<le> r3" "r3 < 1461"
    unfolding c_def r3_def by simp_all
  have s4: "r3 = 365 * e + f" "0 \<le> f" "f < 365"
    unfolding e_def f_def by simp_all
  have bb: "0 \<le> b" "b \<le> 4" using s1 s2 by linarith+
  have cb: "0 \<le> c" "c \<le> 24" using s2 s3 by linarith+
  have eb: "0 \<le> e" "e \<le> 4" using s3 s4 by linarith+
  have n: "n = 146097 * a + 36524 * b + 1461 * c + 365 * e + f + 1"
    using s1(1) s2(1) s3(1) s4(1) by linarith
  have unf: "ord2ymd n =
      (if e = 4 \<or> b = 4 then (400 * a + 100 * b + 4 * c + e, 12, 31)
       else (case month_day L f of (m, d) \<Rightarrow> (400 * a + 100 * b + 4 * c + e + 1, m, d)))"
    unfolding ord2ymd_def DI400Y_def DI100Y_def DI4Y_def Let_def
      a_def [symmetric] r1_def [symmetric] b_def [symmetric] r2_def [symmetric]
      c_def [symmetric] r3_def [symmetric] e_def [symmetric] f_def [symmetric] L_def
    by (simp add: algebra_simps)
  consider (century) "b = 4" | (cycle) "b \<le> 3" "e = 4" | (regular) "b \<le> 3" "e \<le> 3"
    using bb eb by linarith
  then show ?thesis
  proof cases
    case century
    have z: "c = 0" "e = 0" "f = 0"
      using century s1 s2 s3 s4 cb eb by linarith+
    have ymd: "y = 400 * a + 399 + 1" "m = 12" "d = 31"
      using assms unf century z by simp_all
    have dby: "days_before_year y = 146097 * a + 145731"
      using days_before_year_split [of 3 24 3 a] ymd(1) by simp
    have leap: "is_leap y"
      using is_leap_split [of 3 24 3 a] ymd(1) by simp
    have "ymd2ord y m d = n"
      using dby leap ymd(2,3) n century z
      by (simp add: ymd2ord_def days_before_month_def DAYS_BEFORE_MONTH_def)
    moreover have "d \<le> days_in_month y m"
      using ymd by (simp add: days_in_month_def DAYS_IN_MONTH_def)
    moreover have "1 \<le> y \<and> y \<le> 9999" if "1 \<le> n" "n \<le> MAXORDINAL"
      using that n century z ymd(1) unfolding MAXORDINAL_def by linarith
    ultimately show ?thesis using ymd by simp
  next
    case cycle
    have z: "f = 0" "c \<le> 23"
      using cycle s2 s3 s4 by linarith+
    have ymd: "y = 400 * a + 100 * b + 4 * c + 3 + 1" "m = 12" "d = 31"
      using assms unf cycle by simp_all
    have dby: "days_before_year y = 146097 * a + 36524 * b + 1461 * c + 1095"
      using days_before_year_split [of b c 3 a] ymd(1) bb cb cycle by simp
    have leap: "is_leap y"
      using is_leap_split [of b c 3 a] ymd(1) bb cb cycle z by simp
    have "ymd2ord y m d = n"
      using dby leap ymd(2,3) n cycle z
      by (simp add: ymd2ord_def days_before_month_def DAYS_BEFORE_MONTH_def)
    moreover have "d \<le> days_in_month y m"
      using ymd by (simp add: days_in_month_def DAYS_IN_MONTH_def)
    moreover have "1 \<le> y \<and> y \<le> 9999" if "1 \<le> n" "n \<le> MAXORDINAL"
      using that n cycle z ymd(1) bb cb unfolding MAXORDINAL_def by linarith
    ultimately show ?thesis using ymd by simp
  next
    case regular
    have ne: "\<not> (e = 4 \<or> b = 4)" using regular by simp
    obtain m' d' where md: "month_day L f = (m', d')" by (cases "month_day L f")
    have ymd: "y = 400 * a + 100 * b + 4 * c + e + 1" "m = m'" "d = d'"
      using assms unf ne md by simp_all
    have leap: "is_leap y \<longleftrightarrow> L"
      unfolding L_def ymd(1) using is_leap_split [of b c e a] bb cb eb regular by simp
    have dby: "days_before_year y = 146097 * a + 36524 * b + 1461 * c + 365 * e"
      unfolding ymd(1) using days_before_year_split [of b c e a] bb cb eb regular by simp
    from month_day_correct [OF s4(2) _ md] s4(3)
    have mdc: "1 \<le> m'" "m' \<le> 12" "1 \<le> d'"
      "d' \<le> DAYS_IN_MONTH ! nat m' + (if m' = 2 \<and> L then 1 else 0)"
      "DAYS_BEFORE_MONTH ! nat m' + (if m' > 2 \<and> L then 1 else 0) + d' = f + 1"
      by simp_all
    have "ymd2ord y m d = n"
      using dby leap ymd(2,3) n mdc(5)
      by (simp add: ymd2ord_def days_before_month_def)
    moreover have "d \<le> days_in_month y m"
      using mdc(4) leap ymd(2,3)
      by (auto simp: days_in_month_def DAYS_IN_MONTH_def split: if_splits)
    moreover have "1 \<le> y \<and> y \<le> 9999" if "1 \<le> n" "n \<le> MAXORDINAL"
      using that n regular ymd(1) bb cb eb s4 unfolding MAXORDINAL_def by linarith
    ultimately show ?thesis using ymd mdc by simp
  qed
qed

subsection \<open>The text of a date\<close>

lemma dec_digits_1: "n < 10 \<Longrightarrow> dec_digits n = [digit_char n]"
  by (subst dec_digits.simps) simp

lemma dec_digits_2:
  assumes "10 \<le> n" "n < 100"
  shows "dec_digits n = [digit_char (n div 10), digit_char (n mod 10)]"
proof -
  have "n div 10 < 10" using assms by simp
  then show ?thesis
    using assms by (subst dec_digits.simps) (simp add: dec_digits_1)
qed

lemma div_10_10: "(n::nat) div 10 div 10 = n div 100"
  by (simp add: div_mult2_eq [symmetric])

lemma div_10_100: "(n::nat) div 10 div 100 = n div 1000"
  by (simp add: div_mult2_eq [symmetric])

lemma dec_digits_3:
  assumes "100 \<le> n" "n < 1000"
  shows "dec_digits n = [digit_char (n div 100), digit_char (n div 10 mod 10), digit_char (n mod 10)]"
proof -
  have "10 \<le> n div 10" "n div 10 < 100" using assms by simp_all
  from dec_digits_2 [OF this] show ?thesis
    using assms by (subst dec_digits.simps) (simp add: div_10_10 div_10_100)
qed

lemma dec_digits_4:
  assumes "1000 \<le> n" "n < 10000"
  shows "dec_digits n = [digit_char (n div 1000), digit_char (n div 100 mod 10),
                         digit_char (n div 10 mod 10), digit_char (n mod 10)]"
proof -
  have "100 \<le> n div 10" "n div 10 < 1000" using assms by simp_all
  from dec_digits_3 [OF this] show ?thesis
    using assms by (subst dec_digits.simps) (simp add: div_10_10 div_10_100)
qed

lemma zero_padded_2:
  assumes "0 \<le> n" "n < 100"
  shows "zero_padded 2 n = [digit_char (nat n div 10), digit_char (nat n mod 10)]"
proof (cases "nat n < 10")
  case True
  then show ?thesis
    using assms by (simp add: zero_padded_def dec_digits_1 digit_char_def)
next
  case False
  then have "10 \<le> nat n" "nat n < 100" using assms by simp_all
  from dec_digits_2 [OF this] show ?thesis
    using assms by (simp add: zero_padded_def)
qed

lemma zero_padded_4:
  assumes "0 \<le> n" "n < 10000"
  shows "zero_padded 4 n = [digit_char (nat n div 1000), digit_char (nat n div 100 mod 10),
                            digit_char (nat n div 10 mod 10), digit_char (nat n mod 10)]"
proof -
  consider "nat n < 10" | "10 \<le> nat n" "nat n < 100" | "100 \<le> nat n" "nat n < 1000"
    | "1000 \<le> nat n" "nat n < 10000"
    using assms by linarith
  then show ?thesis
  proof cases
    case 1
    then show ?thesis
      using assms by (simp add: zero_padded_def dec_digits_1 digit_char_def numeral_3_eq_3)
  next
    case 2
    from dec_digits_2 [OF this] 2 show ?thesis
      using assms by (simp add: zero_padded_def digit_char_def numeral_2_eq_2)
  next
    case 3
    from dec_digits_3 [OF this] 3 show ?thesis
      using assms by (simp add: zero_padded_def digit_char_def)
  next
    case 4
    from dec_digits_4 [OF this] show ?thesis
      using assms by (simp add: zero_padded_def)
  qed
qed

lemma isoformat_shape:
  assumes "1 \<le> y" "y \<le> 9999" "1 \<le> m" "m \<le> 12" "1 \<le> d" "d \<le> 31"
  shows "isoformat (y, m, d) =
           [digit_char (nat y div 1000), digit_char (nat y div 100 mod 10),
            digit_char (nat y div 10 mod 10), digit_char (nat y mod 10), CHR ''-'',
            digit_char (nat m div 10), digit_char (nat m mod 10), CHR ''-'',
            digit_char (nat d div 10), digit_char (nat d mod 10)]"
  using assms by (simp add: isoformat_def zero_padded_2 zero_padded_4)

lemma days_in_month_le_31:
  assumes "1 \<le> m" "m \<le> 12"
  shows "days_in_month y m \<le> 31"
proof -
  from assms have "m \<in> set [1..12]" by simp
  then have "m \<in> {1, 2, 3, 4, 5, 6, 7, 8, 9, 10, 11, 12}"
    unfolding upto_1_12 by simp
  then show ?thesis
    by (elim insertE emptyE) (simp_all add: days_in_month_def DAYS_IN_MONTH_def)
qed

lemma ymd2ord_epoch: "ymd2ord 1960 1 1 = 715510"
  by (simp add: ymd2ord_def days_before_year_def days_before_month_def DAYS_BEFORE_MONTH_def)

subsection \<open>Day numbers count days\<close>

lemma month_cases:
  assumes "1 \<le> m" "m \<le> 12"
  shows "m \<in> {1, 2, 3, 4, 5, 6, 7, 8, 9, 10, 11, 12 :: int}"
proof -
  from assms have "m \<in> set [1..12]" by simp
  then show ?thesis unfolding upto_1_12 by simp
qed

lemma div_step:
  fixes y k :: int
  assumes "0 < k"
  shows "y div k = (y - 1) div k + (if y mod k = 0 then 1 else 0)"
proof (cases "y mod k = 0")
  case True
  then obtain q where q: "y = k * q" by auto
  have "(k * (q - 1) + (k - 1)) div k = q - 1"
    using assms by (intro div_known) simp_all
  moreover have "k * (q - 1) + (k - 1) = y - 1" using q by (simp add: algebra_simps)
  ultimately have "(y - 1) div k = q - 1" by simp
  moreover have "y div k = q" using q assms by simp
  ultimately show ?thesis using True by simp
next
  case False
  define q r where "q = y div k" and "r = y mod k"
  have y: "y = k * q + r" unfolding q_def r_def by simp
  have "0 \<le> r" "r < k" using assms unfolding r_def by simp_all
  with False have r: "0 \<le> r - 1" "r - 1 < k" unfolding r_def by simp_all
  have "(k * q + (r - 1)) div k = q"
    using r by (rule div_known)
  moreover have "k * q + (r - 1) = y - 1" using y by simp
  ultimately have "(y - 1) div k = q" by simp
  then show ?thesis using False q_def by simp
qed

lemma days_before_year_step:
  "days_before_year (y + 1) = days_before_year y + 365 + (if is_leap y then 1 else 0)"
proof -
  define p4 p100 p400 where "p4 = (y - 1) div 4" and "p100 = (y - 1) div 100"
    and "p400 = (y - 1) div 400"
  have d4: "y div 4 = p4 + (if y mod 4 = 0 then 1 else 0)"
    unfolding p4_def by (rule div_step) simp
  have d100: "y div 100 = p100 + (if y mod 100 = 0 then 1 else 0)"
    unfolding p100_def by (rule div_step) simp
  have d400: "y div 400 = p400 + (if y mod 400 = 0 then 1 else 0)"
    unfolding p400_def by (rule div_step) simp
  have a: "y mod 4 = 0" if "y mod 100 = 0"
  proof -
    from that have "100 dvd y" by (simp add: dvd_eq_mod_eq_0)
    moreover have "(4::int) dvd 100" by simp
    ultimately have "4 dvd y" by (rule dvd_trans [rotated])
    then show ?thesis by (simp add: dvd_eq_mod_eq_0)
  qed
  have b: "y mod 100 = 0" if "y mod 400 = 0"
  proof -
    from that have "400 dvd y" by (simp add: dvd_eq_mod_eq_0)
    moreover have "(100::int) dvd 400" by simp
    ultimately have "100 dvd y" by (rule dvd_trans [rotated])
    then show ?thesis by (simp add: dvd_eq_mod_eq_0)
  qed
  have l: "days_before_year (y + 1) = y * 365 + y div 4 - y div 100 + y div 400"
    by (simp add: days_before_year_def Let_def)
  have r: "days_before_year y = (y - 1) * 365 + p4 - p100 + p400"
    by (simp add: days_before_year_def Let_def p4_def p100_def p400_def)
  consider (c400) "y mod 400 = 0" | (c100) "y mod 400 \<noteq> 0" "y mod 100 = 0"
    | (c4) "y mod 100 \<noteq> 0" "y mod 4 = 0" | (c1) "y mod 4 \<noteq> 0"
    by blast
  then show ?thesis
  proof cases
    case c400
    with a b have "y mod 100 = 0" "y mod 4 = 0" by simp_all
    with c400 show ?thesis unfolding l r d4 d100 d400 is_leap_def by simp
  next
    case c100
    with a have "y mod 4 = 0" by simp
    with c100 show ?thesis unfolding l r d4 d100 d400 is_leap_def by simp
  next
    case c4
    with b have "y mod 400 \<noteq> 0" by auto
    with c4 show ?thesis unfolding l r d4 d100 d400 is_leap_def by simp
  next
    case c1
    with a b have "y mod 100 \<noteq> 0" "y mod 400 \<noteq> 0" by auto
    with c1 show ?thesis unfolding l r d4 d100 d400 is_leap_def by simp
  qed
qed

lemma days_before_year_mono:
  assumes "y < y'"
  shows "days_before_year (y + 1) \<le> days_before_year y'"
proof -
  have "y + 1 \<le> y'" using assms by simp
  then show ?thesis
  proof (induction y' rule: int_ge_induct)
    case base
    then show ?case by simp
  next
    case (step i)
    have "days_before_year i \<le> days_before_year (i + 1)"
      by (simp add: days_before_year_step)
    with step show ?case by simp
  qed
qed

lemma days_before_month_next:
  assumes "1 \<le> m" "m \<le> 12"
  shows "days_before_month y m + days_in_month y m =
           (if m = 12 then 365 + (if is_leap y then 1 else 0) else days_before_month y (m + 1))"
  using month_cases [OF assms]
  by (elim insertE emptyE)
     (simp_all add: days_before_month_def days_in_month_def DAYS_BEFORE_MONTH_def DAYS_IN_MONTH_def)

lemma days_in_month_pos:
  assumes "1 \<le> m" "m \<le> 12"
  shows "28 \<le> days_in_month y m"
  using month_cases [OF assms]
  by (elim insertE emptyE) (simp_all add: days_in_month_def DAYS_IN_MONTH_def)

lemma days_before_month_nonneg:
  assumes "1 \<le> m" "m \<le> 12"
  shows "0 \<le> days_before_month y m"
  using month_cases [OF assms]
  by (elim insertE emptyE) (simp_all add: days_before_month_def DAYS_BEFORE_MONTH_def)

lemma days_before_month_mono:
  assumes "1 \<le> m" "m < m'" "m' \<le> 12"
  shows "days_before_month y m + days_in_month y m \<le> days_before_month y m'"
proof -
  have "m + 1 \<le> m'" using assms by simp
  then have "m' \<le> 12 \<longrightarrow> days_before_month y m + days_in_month y m \<le> days_before_month y m'"
  proof (induction m' rule: int_ge_induct)
    case base
    show ?case using days_before_month_next [of m y] assms(1) by simp
  next
    case (step i)
    show ?case
    proof
      assume i: "i + 1 \<le> 12"
      then have "1 \<le> i" "i \<le> 12" using step.hyps assms(1) by simp_all
      from days_before_month_next [OF this, of y] days_in_month_pos [OF this, of y] i
      have "days_before_month y i \<le> days_before_month y (i + 1)" by simp
      with step.IH i show "days_before_month y m + days_in_month y m \<le> days_before_month y (i + 1)"
        by simp
    qed
  qed
  with assms show ?thesis by simp
qed

lemma day_of_year_bounds:
  assumes "valid_month_day y m d"
  shows "1 \<le> days_before_month y m + d"
    and "days_before_month y m + d \<le> 365 + (if is_leap y then 1 else 0)"
proof -
  from assms have m: "1 \<le> m" "m \<le> 12" and d: "1 \<le> d" "d \<le> days_in_month y m"
    by (simp_all add: valid_month_day_def)
  show "1 \<le> days_before_month y m + d"
    using days_before_month_nonneg [OF m, of y] d by simp
  show "days_before_month y m + d \<le> 365 + (if is_leap y then 1 else 0)"
  proof (cases "m = 12")
    case True
    with days_before_month_next [OF m, of y] d show ?thesis by simp
  next
    case False
    with m have "m < 12" by simp
    from days_before_month_mono [OF m(1) this, of y] days_before_month_next [of 12 y]
         days_in_month_pos [of 12 y] d
    show ?thesis by simp
  qed
qed

lemma ymd2ord_inj:
  assumes "valid_month_day y m d" "valid_month_day y' m' d'" "ymd2ord y m d = ymd2ord y' m' d'"
  shows "y = y' \<and> m = m' \<and> d = d'"
proof -
  have year: "False" if "u < v" "valid_month_day u p q" "valid_month_day v p' q'"
    "ymd2ord u p q = ymd2ord v p' q'" for u v p q p' q'
  proof -
    have "ymd2ord u p q \<le> days_before_year (u + 1)"
      using day_of_year_bounds(2) [OF that(2)]
      by (simp add: ymd2ord_def days_before_year_step)
    also have "\<dots> \<le> days_before_year v" using that(1) by (rule days_before_year_mono)
    also have "\<dots> < ymd2ord v p' q'"
      using day_of_year_bounds(1) [OF that(3)] by (simp add: ymd2ord_def)
    finally show False using that(4) by simp
  qed
  have y: "y = y'"
    using year [of y y' m d m' d'] year [of y' y m' d' m d] assms
    by (metis linorder_neqE_linordered_idom)
  have month: "False" if "p < p'" "valid_month_day y p q" "valid_month_day y p' q'"
    "days_before_month y p + q = days_before_month y p' + q'" for p q p' q'
  proof -
    from that have "days_before_month y p + q \<le> days_before_month y p + days_in_month y p"
      by (simp add: valid_month_day_def)
    also have "\<dots> \<le> days_before_month y p'"
      using that by (intro days_before_month_mono) (simp_all add: valid_month_day_def)
    also have "\<dots> < days_before_month y p' + q'"
      using that by (simp add: valid_month_day_def)
    finally show False using that(4) by simp
  qed
  have eq: "days_before_month y m + d = days_before_month y m' + d'"
    using assms(3) y by (simp add: ymd2ord_def)
  have m: "m = m'"
    using month [of m m' d d'] month [of m' m d' d] assms(1,2) eq y
    by (metis linorder_neqE_linordered_idom)
  with eq y show ?thesis by simp
qed

lemma next_day_step:
  assumes "valid_month_day y m d" "next_day (y, m, d) = (y', m', d')"
  shows "valid_month_day y' m' d' \<and> ymd2ord y' m' d' = ymd2ord y m d + 1"
proof -
  from assms(1) have m: "1 \<le> m" "m \<le> 12" and d: "1 \<le> d" "d \<le> days_in_month y m"
    by (simp_all add: valid_month_day_def)
  consider (same) "d < days_in_month y m" | (month) "d = days_in_month y m" "m < 12"
    | (year) "d = days_in_month y m" "m = 12"
    using d m by linarith
  then show ?thesis
  proof cases
    case same
    with assms(2) have "y' = y" "m' = m" "d' = d + 1" by (simp_all add: next_day_def)
    with same m d show ?thesis by (simp add: valid_month_day_def ymd2ord_def)
  next
    case month
    with assms(2) have e: "y' = y" "m' = m + 1" "d' = 1" by (simp_all add: next_day_def)
    have "1 \<le> m + 1" "m + 1 \<le> 12" using m month by simp_all
    from days_in_month_pos [OF this, of y] have "1 \<le> days_in_month y (m + 1)" by simp
    moreover have "days_before_month y (m + 1) = days_before_month y m + d"
      using days_before_month_next [OF m, of y] month by simp
    ultimately show ?thesis using e m month by (simp add: valid_month_day_def ymd2ord_def)
  next
    case year
    with assms(2) have e: "y' = y + 1" "m' = 1" "d' = 1" by (simp_all add: next_day_def)
    have "days_before_month y m + d = 365 + (if is_leap y then 1 else 0)"
      using days_before_month_next [OF m, of y] year by simp
    moreover have "days_before_month (y + 1) 1 = 0"
      by (simp add: days_before_month_def DAYS_BEFORE_MONTH_def)
    moreover have "1 \<le> days_in_month (y + 1) 1"
      by (simp add: days_in_month_def DAYS_IN_MONTH_def)
    ultimately show ?thesis
      using e by (simp add: valid_month_day_def ymd2ord_def days_before_year_step)
  qed
qed

lemma ord2ymd_valid_month_day:
  assumes "ord2ymd n = (y, m, d)"
  shows "valid_month_day y m d" "ymd2ord y m d = n"
  using ord2ymd_valid [OF assms] by (simp_all add: valid_month_day_def)

lemma ord2ymd_next: "ord2ymd (n + 1) = next_day (ord2ymd n)"
proof -
  obtain y m d where a: "ord2ymd n = (y, m, d)" by (cases "ord2ymd n")
  obtain y' m' d' where b: "next_day (y, m, d) = (y', m', d')" by (cases "next_day (y, m, d)")
  obtain y'' m'' d'' where c: "ord2ymd (n + 1) = (y'', m'', d'')" by (cases "ord2ymd (n + 1)")
  from next_day_step [OF ord2ymd_valid_month_day(1) [OF a] b] ord2ymd_valid_month_day(2) [OF a]
  have "valid_month_day y' m' d'" "ymd2ord y' m' d' = n + 1" by simp_all
  with ord2ymd_valid_month_day [OF c] ymd2ord_inj [of y'' m'' d'' y' m' d']
  have "y'' = y' \<and> m'' = m' \<and> d'' = d'" by simp
  with a b c show ?thesis by simp
qed

lemma ord2ymd_add: "ord2ymd (n + int k) = (next_day ^^ k) (ord2ymd n)"
proof (induction k)
  case 0
  then show ?case by simp
next
  case (Suc k)
  have "ord2ymd (n + int (Suc k)) = ord2ymd ((n + int k) + 1)" by (simp add: algebra_simps)
  also have "\<dots> = next_day (ord2ymd (n + int k))" by (rule ord2ymd_next)
  finally show ?case using Suc by simp
qed

lemma ord2ymd_eqI:
  assumes "valid_month_day y m d" "ymd2ord y m d = n"
  shows "ord2ymd n = (y, m, d)"
proof -
  obtain y' m' d' where a: "ord2ymd n = (y', m', d')" by (cases "ord2ymd n")
  from ord2ymd_valid_month_day [OF a] assms ymd2ord_inj [of y' m' d' y m d]
  show ?thesis using a by simp
qed

lemma ord2ymd_epoch: "ord2ymd 715510 = (1960, 1, 1)"
  by (rule ord2ymd_eqI)
     (simp_all add: valid_month_day_def days_in_month_def DAYS_IN_MONTH_def ymd2ord_epoch)

lemma days_after_epoch: "days_after (1960, 1, 1) d (ord2ymd (715510 + d))"
proof (cases "0 \<le> d")
  case True
  then have "715510 + d = 715510 + int (nat d)" by simp
  then have "ord2ymd (715510 + d) = (next_day ^^ nat d) (ord2ymd 715510)"
    by (metis ord2ymd_add)
  with True show ?thesis by (simp add: days_after_def ord2ymd_epoch)
next
  case False
  then have "715510 = (715510 + d) + int (nat (- d))" by simp
  then have "ord2ymd 715510 = (next_day ^^ nat (- d)) (ord2ymd (715510 + d))"
    by (metis ord2ymd_add)
  with False show ?thesis by (simp add: days_after_def ord2ymd_epoch)
qed

section \<open>Evaluation rules\<close>

text \<open>
  A date conversion is evaluated from the date it should give: the date is checked to be
  valid and to have the right day number.
\<close>

lemma convert_to_datetime_eval:
  assumes "d \<noteq> 0" "valid_month_day y m dd" "ymd2ord y m dd = 715510 + d"
    and "1 \<le> 715510 + d" "715510 + d \<le> 3652059"
  shows "convert_to_datetime (Some d) = Inr (Some (isoformat (y, m, dd)))"
proof -
  have "ord2ymd (715510 + d) = (y, m, dd)"
    using assms(2,3) by (rule ord2ymd_eqI)
  then show ?thesis
    using assms(1,4,5)
    by (simp add: convert_to_datetime_def date_add_def ymd2ord_epoch MAXORDINAL_def Let_def)
qed

lemmas ymd_eval =
  valid_month_day_def days_in_month_def DAYS_IN_MONTH_def ymd2ord_def days_before_year_def
  days_before_month_def DAYS_BEFORE_MONTH_def is_leap_def

lemmas iso_eval = isoformat_def zero_padded_def dec_digits.simps digit_char_def

lemma arrdate_example: "convert_to_datetime (Some 20574) = Inr (Some ''2016-04-30'')"
proof -
  have "isoformat (2016, 4, 30) = ''2016-04-30''" by (simp add: iso_eval)
  with convert_to_datetime_eval [of 20574 2016 4 30] show ?thesis
    by (simp add: ymd_eval)
qed

lemmas country_eval =
  get_valid_country_def py_int_def dict_getitem_def udf_arg_def

section \<open>Properties of the port resolver\<close>

lemma py_in_sublist: "py_in xs ys = sublist xs ys"
  by (induction ys) (auto simp: sublist_Cons_right)

lemma py_lower_append: "py_lower (xs @ ys) = py_lower xs @ py_lower ys"
  by (simp add: py_lower_def)

lemma py_lower_split:
  "py_lower label = ps @ xs @ ss \<Longrightarrow>
   \<exists>pre mid suf. label = pre @ mid @ suf \<and> py_lower pre = ps \<and> py_lower mid = xs \<and> py_lower suf = ss"
  unfolding py_lower_def
  by (metis append_eq_map_conv)

text \<open>The test of the code and the wording of the specification agree.\<close>

lemma py_in_ci_substring:
  "py_in (py_lower city) (py_lower label) = ci_substring city label"
proof
  assume "py_in (py_lower city) (py_lower label)"
  then have "sublist (py_lower city) (py_lower label)"
    by (simp only: py_in_sublist)
  then obtain ps ss where "py_lower label = ps @ py_lower city @ ss"
    unfolding sublist_def by blast
  from py_lower_split [OF this] obtain pre mid suf where
    l: "label = pre @ mid @ suf" and m: "py_lower mid = py_lower city"
    by auto
  from m have len: "length mid = length city"
    unfolding py_lower_def by (rule map_eq_imp_length_eq)
  have "py_lower_char (mid ! i) = py_lower_char (city ! i)" if "i < length city" for i
  proof -
    have "py_lower mid ! i = py_lower city ! i" using m by simp
    then show ?thesis using that len by (simp add: py_lower_def)
  qed
  with l len show "ci_substring city label"
    unfolding ci_substring_def by blast
next
  assume "ci_substring city label"
  then obtain pre mid suf where
    l: "label = pre @ mid @ suf" and len: "length mid = length city" and
    eq: "\<forall>i<length city. py_lower_char (mid ! i) = py_lower_char (city ! i)"
    unfolding ci_substring_def by blast
  have "py_lower mid = py_lower city"
    unfolding py_lower_def using len eq by (simp add: list_eq_iff_nth_eq)
  then have "py_lower label = py_lower pre @ py_lower city @ py_lower suf"
    using l by (simp add: py_lower_append)
  then have "sublist (py_lower city) (py_lower label)"
    unfolding sublist_def by blast
  then show "py_in (py_lower city) (py_lower label)"
    by (simp only: py_in_sublist)
qed

lemma city_to_port_loop_find:
  "set keys \<subseteq> fst ` set valid_ports \<Longrightarrow>
   city_to_port_loop valid_ports keys (Some city) =
     Inr (find (\<lambda>k. ci_substring city (the (map_of valid_ports k))) keys)"
proof (induction keys)
  case Nil
  then show ?case by simp
next
  case (Cons key keys)
  then obtain label where "map_of valid_ports key = Some label"
    by (metis list.set_intros(1) map_of_eq_None_iff not_Some_eq subsetD)
  with Cons show ?case
    by (simp add: py_in_ci_substring)
qed

lemma city_to_port_find:
  "city_to_port valid_ports (Some city) =
     Inr (find (\<lambda>k. ci_substring city (the (map_of valid_ports k))) (map fst valid_ports))"
  unfolding city_to_port_def by (rule city_to_port_loop_find) simp

text \<open>
  Claim C9. For a non-null city name, \<open>city_to_port\<close> returns the code of the first
  catalog entry, in iteration order, whose label contains the city name as a substring
  with letter case ignored, and it returns null when no label does. The catalog is a
  dictionary, so its keys are distinct.
\<close>

theorem city_to_port_first_match:
  assumes "distinct (map fst valid_ports)"
  shows "(\<exists>i<length valid_ports.
            ci_substring city (snd (valid_ports ! i)) \<and>
            (\<forall>j<i. \<not> ci_substring city (snd (valid_ports ! j))) \<and>
            city_to_port valid_ports (Some city) = Inr (Some (fst (valid_ports ! i))))
         \<or> ((\<forall>i<length valid_ports. \<not> ci_substring city (snd (valid_ports ! i))) \<and>
            city_to_port valid_ports (Some city) = Inr None)"
proof -
  let ?P = "\<lambda>k. ci_substring city (the (map_of valid_ports k))"
  have run: "city_to_port valid_ports (Some city) = Inr (find ?P (map fst valid_ports))"
    by (rule city_to_port_find)
  have label: "the (map_of valid_ports (fst (valid_ports ! i))) = snd (valid_ports ! i)"
    if "i < length valid_ports" for i
    using assms that by (metis map_of_is_SomeI nth_mem option.sel prod.collapse)
  show ?thesis
  proof (cases "find ?P (map fst valid_ports)")
    case None
    then have "\<forall>i<length valid_ports. \<not> ci_substring city (snd (valid_ports ! i))"
      using label by (auto simp: find_None_iff) (metis nth_mem)
    with None run show ?thesis by simp
  next
    case (Some k)
    then obtain i where i: "i < length valid_ports" "?P (map fst valid_ports ! i)"
      "k = map fst valid_ports ! i" "\<forall>j<i. \<not> ?P (map fst valid_ports ! j)"
      by (auto simp: find_Some_iff)
    have "ci_substring city (snd (valid_ports ! i))"
      using i label by simp
    moreover have "\<forall>j<i. \<not> ci_substring city (snd (valid_ports ! j))"
      using i label by simp
    moreover have "city_to_port valid_ports (Some city) = Inr (Some (fst (valid_ports ! i)))"
      using run Some i by simp
    ultimately show ?thesis using i(1) by blast
  qed
qed

theorem city_to_port_first_match_witness:
  "distinct (map fst [(''ALC'', ''ALCAN,AK''), (''NEW'', ''NEWARK/TETERBORO,NJ''), (''NYC'', ''NEWYORK,NY'')]) \<and>
   city_to_port [(''ALC'', ''ALCAN,AK''), (''NEW'', ''NEWARK/TETERBORO,NJ''), (''NYC'', ''NEWYORK,NY'')]
     (Some ''Newark'') = Inr (Some ''NEW'') \<and>
   ci_substring ''Newark'' ''NEWARK/TETERBORO,NJ'' \<and>
   \<not> ci_substring ''Newark'' ''ALCAN,AK''"
proof -
  let ?cat = "[(''ALC'', ''ALCAN,AK''), (''NEW'', ''NEWARK/TETERBORO,NJ''), (''NYC'', ''NEWYORK,NY'')]"
  have d: "distinct (map fst ?cat)" by simp
  have r: "city_to_port ?cat (Some ''Newark'') = Inr (Some ''NEW'')"
    by (simp add: city_to_port_def py_lower_def py_lower_char_def)
  have neq: "fst (?cat ! i) = ''NEW'' \<Longrightarrow> i < length ?cat \<Longrightarrow> i = 1" for i
    by (auto simp: less_Suc_eq numeral_3_eq_3)
  from city_to_port_first_match [OF d, of "''Newark''"] r
  obtain i where i: "i < length ?cat" "ci_substring ''Newark'' (snd (?cat ! i))"
    "\<forall>j<i. \<not> ci_substring ''Newark'' (snd (?cat ! j))" "fst (?cat ! i) = ''NEW''"
    by auto
  from neq [OF i(4) i(1)] have i1: "i = 1" .
  from i(2) i1 have m: "ci_substring ''Newark'' ''NEWARK/TETERBORO,NJ''" by simp
  from i(3) i1 have "\<not> ci_substring ''Newark'' (snd (?cat ! 0))" by blast
  then have n: "\<not> ci_substring ''Newark'' ''ALCAN,AK''" by simp
  from d r m n show ?thesis by blast
qed

text \<open>
  Claim C10 (as amended). On a null city name \<open>city_to_port\<close> raises
  \<^verbatim>\<open>AttributeError\<close> whenever the port catalog has at least one entry: the city is
  lowercased in the loop body, at the first entry. With an empty catalog the loop body
  never runs and the result is null. On a non-null city name it always returns.
\<close>

theorem city_to_port_null_city:
  "(valid_ports \<noteq> [] \<longrightarrow> city_to_port valid_ports None = Inl AttributeError) \<and>
   (valid_ports = [] \<longrightarrow> city_to_port valid_ports None = Inr None) \<and>
   (\<exists>p. city_to_port valid_ports (Some city) = Inr p)"
proof -
  have "\<exists>p. city_to_port valid_ports (Some city) = Inr p"
    by (simp add: city_to_port_find)
  then show ?thesis
    by (cases valid_ports) (simp_all add: city_to_port_def)
qed

theorem city_to_port_null_city_witness:
  "[(''NYC'', ''NEWYORK,NY'')] \<noteq> [] \<and>
   city_to_port [(''NYC'', ''NEWYORK,NY'')] None = Inl AttributeError \<and>
   city_to_port [] None = Inr None \<and>
   (\<exists>p. city_to_port [(''NYC'', ''NEWYORK,NY'')] (Some ''Boston'') = Inr p)"
  using city_to_port_null_city [of "[(''NYC'', ''NEWYORK,NY'')]" "''Boston''"]
        city_to_port_null_city [of "[]" "''Boston''"]
  by simp

text \<open>
  The claim as first stated, that a null city name never gives a null port, fails for
  the empty catalog.
\<close>

theorem city_to_port_null_city_counterexample:
  "city_to_port [] None = Inr None"
  by (simp add: city_to_port_def)

section \<open>Properties of the surrogate key\<close>

lemma map_fst_row_number: "map fst (row_number xs) = [1..int (length xs)]"
  unfolding row_number_def by (simp add: map_fst_zip)

lemma map_snd_row_number: "map snd (row_number xs) = xs"
  unfolding row_number_def by (simp add: map_snd_zip)

text \<open>
  Claim C3. Whatever order the engine gives the \<open>N\<close> filtered rows (any
  arrangement \<open>ordered_rows\<close> of \<open>rows\<close>), the \<open>immigrant_id\<close> values are
  \<open>1, \<dots>, N\<close> in this order: their set is exactly \<open>{1..N}\<close>, no value repeats, each value
  of \<open>{1..N}\<close> occurs exactly once, and the numbered rows are the filtered rows.
\<close>

theorem immigrant_id_dense:
  assumes "mset ordered_rows = mset rows"
  shows "map fst (row_number ordered_rows) = [1..int (length rows)] \<and>
         set (map fst (row_number ordered_rows)) = {1..int (length rows)} \<and>
         distinct (map fst (row_number ordered_rows)) \<and>
         (\<forall>k\<in>{1..int (length rows)}. count_list (map fst (row_number ordered_rows)) k = 1) \<and>
         mset (map snd (row_number ordered_rows)) = mset rows"
proof -
  have len: "length ordered_rows = length rows"
    using assms by (rule mset_eq_length)
  have ids: "map fst (row_number ordered_rows) = [1..int (length rows)]"
    by (simp add: map_fst_row_number len)
  have d: "distinct [1..int (length rows)]" by simp
  have "count_list [1..int (length rows)] k = 1" if "k \<in> {1..int (length rows)}" for k
  proof -
    have "count (mset [1..int (length rows)]) k = 1"
      using d that unfolding distinct_count_atmost_1 by simp
    then show ?thesis by (simp add: count_mset)
  qed
  then show ?thesis
    using ids assms by (simp add: map_snd_row_number)
qed

theorem immigrant_id_dense_witness:
  "mset [''b'', ''c'', ''a''] = mset [''a'', ''b'', ''c''] \<and>
   row_number [''b'', ''c'', ''a''] = [(1, ''b''), (2, ''c''), (3, ''a'')] \<and>
   set (map fst (row_number [''b'', ''c'', ''a''])) = {1..int (length [''a'', ''b'', ''c''])}"
proof -
  have m: "mset [''b'', ''c'', ''a''] = mset [''a'', ''b'', ''c'']" by simp
  have r: "row_number [''b'', ''c'', ''a''] = [(1, ''b''), (2, ''c''), (3, ''a'')]"
    by (simp add: row_number_def upto.simps)
  from immigrant_id_dense [OF m] m r show ?thesis by blast
qed

section \<open>Properties of the date conversion\<close>

text \<open>
  Claim C4, as stated: every offset other than null and zero gives a date string. Python's
  dates end with the year 9999, so offset 2936550, the day after 9999-12-31, raises
  \<^verbatim>\<open>OverflowError\<close>.
\<close>

theorem convert_to_datetime_range_counterexample:
  "convert_to_datetime (Some 2936550) = Inl OverflowError"
  by (simp add: convert_to_datetime_def date_add_def ymd2ord_epoch MAXORDINAL_def)

text \<open>
  Claim C4 (as amended). A null offset and the offset zero give null. Every other offset
  \<open>d\<close> from -715509 to 2936549 gives the text of the date that lies \<open>d\<close> days after
  1960-01-01: a valid date of the years 1 to 9999, written as four digits, a hyphen, two
  digits, a hyphen and two digits, with no time component. An offset outside this range
  raises \<^verbatim>\<open>OverflowError\<close>.
\<close>

theorem convert_to_datetime_iso_date:
  "convert_to_datetime None = Inr None \<and>
   convert_to_datetime (Some 0) = Inr None \<and>
   (d \<noteq> 0 \<and> - 715509 \<le> d \<and> d \<le> 2936549 \<longrightarrow>
      (\<exists>y m dd.
         convert_to_datetime (Some d) = Inr (Some (isoformat (y, m, dd))) \<and>
         days_after (1960, 1, 1) d (y, m, dd) \<and>
         1 \<le> y \<and> y \<le> 9999 \<and> valid_month_day y m dd \<and>
         isoformat (y, m, dd) =
           [digit_char (nat y div 1000), digit_char (nat y div 100 mod 10),
            digit_char (nat y div 10 mod 10), digit_char (nat y mod 10), CHR ''-'',
            digit_char (nat m div 10), digit_char (nat m mod 10), CHR ''-'',
            digit_char (nat dd div 10), digit_char (nat dd mod 10)])) \<and>
   (d < - 715509 \<or> 2936549 < d \<longrightarrow> convert_to_datetime (Some d) = Inl OverflowError)"
proof -
  have null: "convert_to_datetime None = Inr None" "convert_to_datetime (Some 0) = Inr None"
    by (simp_all add: convert_to_datetime_def)
  have out: "convert_to_datetime (Some d) = Inl OverflowError" if "d < - 715509 \<or> 2936549 < d"
    using that
    by (auto simp: convert_to_datetime_def date_add_def ymd2ord_epoch MAXORDINAL_def Let_def)
  have inside: "\<exists>y m dd.
         convert_to_datetime (Some d) = Inr (Some (isoformat (y, m, dd))) \<and>
         days_after (1960, 1, 1) d (y, m, dd) \<and>
         1 \<le> y \<and> y \<le> 9999 \<and> valid_month_day y m dd \<and>
         isoformat (y, m, dd) =
           [digit_char (nat y div 1000), digit_char (nat y div 100 mod 10),
            digit_char (nat y div 10 mod 10), digit_char (nat y mod 10), CHR ''-'',
            digit_char (nat m div 10), digit_char (nat m mod 10), CHR ''-'',
            digit_char (nat dd div 10), digit_char (nat dd mod 10)]"
    if d: "d \<noteq> 0" "- 715509 \<le> d" "d \<le> 2936549"
  proof -
    obtain y m dd where o: "ord2ymd (715510 + d) = (y, m, dd)"
      by (cases "ord2ymd (715510 + d)")
    have rng: "1 \<le> 715510 + d" "715510 + d \<le> 3652059"
      using d by simp_all
    from ord2ymd_valid [OF o] rng
    have v: "1 \<le> m" "m \<le> 12" "1 \<le> dd" "dd \<le> days_in_month y m" "1 \<le> y" "y \<le> 9999"
      by (simp_all add: MAXORDINAL_def)
    have vmd: "valid_month_day y m dd"
      using o by (rule ord2ymd_valid_month_day)
    have "dd \<le> 31" using v(4) days_in_month_le_31 [OF v(1,2), of y] by linarith
    from isoformat_shape [OF v(5,6) v(1,2) v(3) this]
    have shape: "isoformat (y, m, dd) =
           [digit_char (nat y div 1000), digit_char (nat y div 100 mod 10),
            digit_char (nat y div 10 mod 10), digit_char (nat y mod 10), CHR ''-'',
            digit_char (nat m div 10), digit_char (nat m mod 10), CHR ''-'',
            digit_char (nat dd div 10), digit_char (nat dd mod 10)]" .
    have conv: "convert_to_datetime (Some d) = Inr (Some (isoformat (y, m, dd)))"
      using d(1) vmd ord2ymd_valid_month_day(2) [OF o] rng
      by (rule convert_to_datetime_eval)
    have after: "days_after (1960, 1, 1) d (y, m, dd)"
      using days_after_epoch [of d] o by simp
    from conv after v(5,6) vmd shape show ?thesis
      by (intro exI [of _ y] exI [of _ m] exI [of _ dd] conjI)
  qed
  from null out inside show ?thesis by blast
qed

theorem convert_to_datetime_iso_date_witness:
  "(20574 :: int) \<noteq> 0 \<and> - 715509 \<le> (20574 :: int) \<and> (20574 :: int) \<le> 2936549 \<and>
   (\<exists>y m dd.
      convert_to_datetime (Some 20574) = Inr (Some (isoformat (y, m, dd))) \<and>
      days_after (1960, 1, 1) 20574 (y, m, dd) \<and> 1 \<le> y \<and> y \<le> 9999 \<and>
      valid_month_day y m dd) \<and>
   convert_to_datetime (Some 20574) = Inr (Some ''2016-04-30'') \<and>
   (2936549 :: int) < 2936550 \<and>
   convert_to_datetime (Some 2936550) = Inl OverflowError"
proof -
  have a: "(20574 :: int) \<noteq> 0 \<and> - 715509 \<le> (20574 :: int) \<and> (20574 :: int) \<le> 2936549"
    by simp
  have b: "(2936549 :: int) < 2936550" by simp
  from convert_to_datetime_iso_date [of 20574] a
  have "\<exists>y m dd.
      convert_to_datetime (Some 20574) = Inr (Some (isoformat (y, m, dd))) \<and>
      days_after (1960, 1, 1) 20574 (y, m, dd) \<and> 1 \<le> y \<and> y \<le> 9999 \<and>
      valid_month_day y m dd"
    by blast
  moreover from convert_to_datetime_iso_date [of 2936550] b
  have "convert_to_datetime (Some 2936550) = Inl OverflowError" by blast
  ultimately show ?thesis using a b arrdate_example by blast
qed

text \<open>
  Claim C5, as stated: offset 0 gives the string 1960-01-01. The code returns null
  there, because \<^verbatim>\<open>if x\<close> is false for zero.
\<close>

theorem convert_to_datetime_zero_counterexample:
  "convert_to_datetime (Some 0) \<noteq> Inr (Some ''1960-01-01'')"
  by (simp add: convert_to_datetime_def)

text \<open>
  Claim C5 (as amended). Offset 0 and a null offset both give null; the epoch shows at
  offset 1, which gives 1960-01-02.
\<close>

theorem convert_to_datetime_zero_null:
  "convert_to_datetime (Some 0) = Inr None \<and> convert_to_datetime None = Inr None \<and>
   convert_to_datetime (Some 1) = Inr (Some ''1960-01-02'')"
proof -
  have "isoformat (1960, 1, 2) = ''1960-01-02''" by (simp add: iso_eval)
  with convert_to_datetime_eval [of 1 1960 1 2]
  have "convert_to_datetime (Some 1) = Inr (Some ''1960-01-02'')"
    by (simp add: ymd_eval)
  then show ?thesis by (simp add: convert_to_datetime_def)
qed

section \<open>Properties of the record cleaner\<close>

text \<open>
  Claim C7. The null policy fills a missing \<open>airline_code\<close> with the string
  \<^verbatim>\<open>Unkown\<close>, not \<^verbatim>\<open>Unknown\<close>; the other four defaults are as claimed.
\<close>

theorem fillna_airline_code_misspelled:
  "fillna all_null_row =
     all_null_row \<lparr> immigrant_age := Some (- 1), state_of_residence := Some ''unknown'',
                    airline_code := Some ''Unkown'', airline_flight_number := Some ''Unknown'',
                    cleaned_gender := Some ''X'' \<rparr> \<and>
   airline_code (fillna all_null_row) \<noteq> Some ''Unknown''"
  by (simp add: fillna_def fill_def all_null_row_def)

lemma select_columns_example:
  "select_columns example_countries example_ports (example_row \<lparr> i94port := Some ''NYC'', i94mode := m \<rparr>) =
     Inr \<lparr> immigration_id = None, immigration_year = None, immigration_month = None,
       origin_country = ''ECUADOR'', arrival_port = ''NYC'', arrival_date = Some ''2016-04-30'',
       port_type = convert_mode m, state_of_residence = None, immigrant_age = Some 37,
       visitor_type = ''Pleasure'', airline_code = None, airline_flight_number = None,
       visa_type = None, cleaned_gender = None \<rparr>"
  by (simp add: select_columns_def example_row_def example_countries_def example_ports_def
        country_eval get_valid_port_def convert_visa_def visa_dict_def arrdate_example)

lemma select_all_mixed_mode_rows:
  "select_all example_countries example_ports mixed_mode_rows =
     Inr (map (\<lambda>m. \<lparr> immigration_id = None, immigration_year = None, immigration_month = None,
       origin_country = ''ECUADOR'', arrival_port = ''NYC'', arrival_date = Some ''2016-04-30'',
       port_type = convert_mode m, state_of_residence = None, immigrant_age = Some 37,
       visitor_type = ''Pleasure'', airline_code = None, airline_flight_number = None,
       visa_type = None, cleaned_gender = None \<rparr>) [Some 1, Some 2, Some 3, Some 9, None])"
  by (simp add: mixed_mode_rows_def select_columns_example)

text \<open>
  Claim C1. Of five arrivals at a catalogued port with mode codes 1, 2, 3, 9 and null,
  one has mode 1 and port type \<^verbatim>\<open>Air\<close>; the filter compares \<open>arrival_port\<close> with
  \<^verbatim>\<open>Air\<close> and emits none of them.
\<close>

theorem air_arrivals_dropped:
  "immigration_df_clean example_countries example_ports mixed_mode_rows = Inr [] \<and>
   length (filter (\<lambda>r. i94mode r = Some 1) mixed_mode_rows) = 1 \<and>
   map_sum id (map port_type) (select_all example_countries example_ports mixed_mode_rows) =
     Inr [''Air'', ''Sea'', ''Land'', ''Not reported'', ''Not reported'']"
proof -
  have "immigration_df_clean example_countries example_ports mixed_mode_rows = Inr []"
    by (simp add: immigration_df_clean_def select_all_mixed_mode_rows filter_rows_def)
  moreover have "length (filter (\<lambda>r. i94mode r = Some 1) mixed_mode_rows) = 1"
    by (simp add: mixed_mode_rows_def)
  moreover have "map_sum id (map port_type) (select_all example_countries example_ports mixed_mode_rows) =
     Inr [''Air'', ''Sea'', ''Land'', ''Not reported'', ''Not reported'']"
    by (simp add: select_all_mixed_mode_rows convert_mode_def mode_dict_def)
  ultimately show ?thesis by blast
qed

text \<open>
  In general every emitted row has \<open>arrival_port\<close> equal to \<^verbatim>\<open>Air\<close>, and a port
  catalog without the key \<^verbatim>\<open>Air\<close> leaves no row at all.
\<close>

lemma filter_rows_arrival_port:
  "c \<in> set (filter_rows rows) \<Longrightarrow> arrival_port c = ''Air''"
  by (simp add: filter_rows_def)

lemma select_columns_arrival_port:
  "select_columns valid_countries valid_ports r = Inr c \<Longrightarrow>
   arrival_port c = get_valid_port valid_ports (i94port r)"
  by (auto simp: select_columns_def split: sum.splits)

lemma select_all_arrival_port:
  "select_all valid_countries valid_ports rows = Inr cs \<Longrightarrow> c \<in> set cs \<Longrightarrow>
   \<exists>r\<in>set rows. arrival_port c = get_valid_port valid_ports (i94port r)"
proof (induction rows arbitrary: cs)
  case Nil
  then show ?case by simp
next
  case (Cons r rows)
  then show ?case
    by (auto split: sum.splits dest: select_columns_arrival_port)
qed

lemma get_valid_port_range:
  "get_valid_port valid_ports x = ''Other'' \<or> get_valid_port valid_ports x \<in> set (map fst valid_ports)"
  by (simp add: get_valid_port_def split: option.splits)

lemma no_air_key_no_rows:
  assumes "''Air'' \<notin> set (map fst valid_ports)"
    and "immigration_df_clean valid_countries valid_ports rows = Inr out"
  shows "out = []"
proof -
  from assms(2) obtain cs where cs: "select_all valid_countries valid_ports rows = Inr cs"
    and out: "out = map fillna (filter_rows cs)"
    by (auto simp: immigration_df_clean_def split: sum.splits)
  have "arrival_port c \<noteq> ''Air''" if "c \<in> set cs" for c
  proof -
    from select_all_arrival_port [OF cs that] obtain r :: raw_immigration where
      "arrival_port c = get_valid_port valid_ports (i94port r)" by blast
    with get_valid_port_range [of valid_ports "i94port r"] assms(1) show ?thesis
      by (auto simp: image_iff)
  qed
  then have "filter_rows cs = []"
    by (simp add: filter_rows_def filter_empty_conv)
  with out show ?thesis by simp
qed

section \<open>Properties of the country normalizer\<close>

lemma map_of_keys: "k \<in> set (map fst d) \<longleftrightarrow> map_of d k \<noteq> None"
  by (simp add: map_of_eq_None_iff)

lemma get_valid_country_int:
  "get_valid_country valid_countries (PInt k) =
     Inr (case map_of valid_countries k of Some name \<Rightarrow> name | None \<Rightarrow> ''Other'')"
  by (auto simp: get_valid_country_def py_int_def dict_getitem_def map_of_keys
           simp del: set_map split: option.splits)

lemma get_valid_country_whole_float:
  "get_valid_country valid_countries (PFloat (of_int k)) =
     Inr (case map_of valid_countries k of Some name \<Rightarrow> name | None \<Rightarrow> ''Other'')"
  by (auto simp: get_valid_country_def py_int_def dict_getitem_def map_of_keys
           simp del: set_map split: option.splits)

text \<open>
  Claim C6, as stated: \<open>get_valid_country\<close> never throws. On a null code \<^verbatim>\<open>int(x)\<close>
  raises \<^verbatim>\<open>TypeError\<close>, on a non-numeric string \<^verbatim>\<open>ValueError\<close>.
\<close>

theorem get_valid_country_counterexample:
  "get_valid_country example_countries PNone = Inl TypeError \<and>
   get_valid_country example_countries (PStr ''abc'') = Inl ValueError"
  by (simp add: get_valid_country_def py_int_def py_int_of_str_def Py_ISSPACE_def digit_value_def)

text \<open>
  Claim C6 (as amended). For a whole-number code, given as an integer or as a float,
  \<open>get_valid_country\<close> returns the catalog's name when the code is mapped and
  \<^verbatim>\<open>Other\<close> when it is not. Whenever \<^verbatim>\<open>int(x)\<close> succeeds with an unmapped code the
  result is \<^verbatim>\<open>Other\<close>. Whatever \<^verbatim>\<open>int(x)\<close> raises, the function raises: \<^verbatim>\<open>TypeError\<close>
  for null, \<^verbatim>\<open>ValueError\<close> for NaN, \<^verbatim>\<open>OverflowError\<close> for an infinity.
\<close>

theorem get_valid_country_cases:
  "get_valid_country valid_countries (PInt k) =
     Inr (case map_of valid_countries k of Some name \<Rightarrow> name | None \<Rightarrow> ''Other'') \<and>
   get_valid_country valid_countries (PFloat (of_int k)) =
     Inr (case map_of valid_countries k of Some name \<Rightarrow> name | None \<Rightarrow> ''Other'') \<and>
   (py_int x = Inr j \<and> j \<notin> set (map fst valid_countries) \<longrightarrow>
      get_valid_country valid_countries x = Inr ''Other'') \<and>
   (py_int x = Inl e \<longrightarrow> get_valid_country valid_countries x = Inl e) \<and>
   py_int PNone = Inl TypeError \<and> py_int PNaN = Inl ValueError \<and>
   py_int PInf = Inl OverflowError \<and> py_int PNegInf = Inl OverflowError"
  by (simp add: get_valid_country_int get_valid_country_whole_float)
     (simp add: get_valid_country_def py_int_def)

theorem get_valid_country_cases_witness:
  "get_valid_country example_countries (PInt 117) = Inr ''ECUADOR'' \<and>
   get_valid_country example_countries (PFloat 117) = Inr ''ECUADOR'' \<and>
   get_valid_country example_countries (PFloat 999) = Inr ''Other'' \<and>
   py_int (PFloat (247 / 2)) = Inr 123 \<and> 123 \<notin> set (map fst example_countries) \<and>
   get_valid_country example_countries (PFloat (247 / 2)) = Inr ''Other'' \<and>
   py_int PNone = Inl TypeError \<and>
   get_valid_country example_countries PNone = Inl TypeError"
proof -
  have "\<lfloor>(247 :: rat) / 2\<rfloor> = 123"
    using floor_divide_of_int_eq [of 247 2, where ?'a = rat] by simp
  then have a: "py_int (PFloat (247 / 2)) = Inr 123"
    by (simp add: py_int_def)
  have b: "123 \<notin> set (map fst example_countries)"
    by (simp add: example_countries_def)
  have c: "py_int PNone = Inl TypeError"
    by (simp add: py_int_def)
  from get_valid_country_cases [of example_countries 117 "PFloat (247 / 2)" 123 TypeError]
       get_valid_country_cases [of example_countries 999 PNone 0 TypeError] a b c
  show ?thesis
    by (simp add: example_countries_def)
qed

text \<open>
  The lookup uses \<open>x\<close> where the test used \<^verbatim>\<open>int(x)\<close>: a fractional float or a numeric
  string whose integer value is mapped raises \<^verbatim>\<open>KeyError\<close>.
\<close>

lemma get_valid_country_key_mismatch:
  "get_valid_country example_countries (PFloat (235 / 2)) = Inl KeyError \<and>
   get_valid_country example_countries (PStr ''117'') = Inl KeyError"
proof -
  have "\<lfloor>(235 :: rat) / 2\<rfloor> = 117"
    using floor_divide_of_int_eq [of 235 2, where ?'a = rat] by simp
  then have "get_valid_country example_countries (PFloat (235 / 2)) = Inl KeyError"
    by (simp add: get_valid_country_def py_int_def dict_getitem_def example_countries_def)
  moreover have "get_valid_country example_countries (PStr ''117'') = Inl KeyError"
    by (simp add: get_valid_country_def py_int_def dict_getitem_def example_countries_def
          py_int_of_str_def Py_ISSPACE_def digit_value_def)
  ultimately show ?thesis by blast
qed

section \<open>The end-to-end example\<close>

text \<open>
  Claim C2, as stated: the example row is emitted with arrival date 2016-04-29. Day
  20574 after 1960-01-01 is 2016-04-30, and the row, whose \<open>arrival_port\<close> is not
  \<^verbatim>\<open>Air\<close>, does not pass the filter.
\<close>

theorem example_row_counterexample:
  "immigration_df_clean example_countries example_ports [example_row] = Inr [] \<and>
   map_sum id arrival_date (select_columns example_countries example_ports example_row) =
     Inr (Some ''2016-04-30'')"
  by (simp add: immigration_df_clean_def select_columns_def example_row_def
        example_countries_def example_ports_def country_eval get_valid_port_def
        arrdate_example filter_rows_def)

text \<open>
  Claim C2 (as amended). With a country catalog that maps 117 to ECUADOR and a port
  catalog without the key XXX, the normalizers and the null policy turn the example row
  into a row with origin country ECUADOR, arrival port Other, arrival date 2016-04-30,
  port type Air, state of residence unknown, age 37, visitor type Pleasure and gender X.
\<close>

theorem example_row_cleaned:
  assumes "map_of valid_countries 117 = Some ''ECUADOR''"
    and "''XXX'' \<notin> set (map fst valid_ports)"
    and "i94res r = Some 117" and "i94port r = Some ''XXX''" and "arrdate r = Some 20574"
    and "i94mode r = Some 1" and "i94addr r = None" and "i94bir r = Some 37"
    and "i94visa r = Some 2" and "gender r = None"
  shows "\<exists>c. select_columns valid_countries valid_ports r = Inr c \<and>
           origin_country (fillna c) = ''ECUADOR'' \<and>
           arrival_port (fillna c) = ''Other'' \<and>
           arrival_date (fillna c) = Some ''2016-04-30'' \<and>
           port_type (fillna c) = ''Air'' \<and>
           state_of_residence (fillna c) = Some ''unknown'' \<and>
           immigrant_age (fillna c) = Some 37 \<and>
           visitor_type (fillna c) = ''Pleasure'' \<and>
           cleaned_gender (fillna c) = Some ''X''"
proof -
  have country: "get_valid_country valid_countries (udf_arg (i94res r)) = Inr ''ECUADOR''"
    using assms(1,3) get_valid_country_whole_float [of valid_countries 117]
    by (simp add: udf_arg_def)
  have port: "get_valid_port valid_ports (i94port r) = ''Other''"
    using assms(2,4) by (simp add: get_valid_port_def)
  show ?thesis
    using assms(5-10)
    by (simp add: select_columns_def country port arrdate_example fillna_def fill_def
          convert_mode_def mode_dict_def convert_visa_def visa_dict_def)
qed

theorem example_row_cleaned_witness:
  "map_of example_countries 117 = Some ''ECUADOR'' \<and>
   ''XXX'' \<notin> set (map fst example_ports) \<and>
   (\<exists>c. select_columns example_countries example_ports example_row = Inr c \<and>
           origin_country (fillna c) = ''ECUADOR'' \<and>
           arrival_port (fillna c) = ''Other'' \<and>
           arrival_date (fillna c) = Some ''2016-04-30'' \<and>
           port_type (fillna c) = ''Air'' \<and>
           state_of_residence (fillna c) = Some ''unknown'' \<and>
           immigrant_age (fillna c) = Some 37 \<and>
           visitor_type (fillna c) = ''Pleasure'' \<and>
           cleaned_gender (fillna c) = Some ''X'')"
proof -
  have a: "map_of example_countries 117 = Some ''ECUADOR''"
    by (simp add: example_countries_def)
  have b: "''XXX'' \<notin> set (map fst example_ports)"
    by (simp add: example_ports_def)
  from example_row_cleaned [OF a b, of example_row] a b show ?thesis
    by (simp add: example_row_def)
qed

section \<open>Properties of the catalog parser\<close>

text \<open>
  When every line of the slice matches, the loop returns a dictionary in which a later
  line overrides an earlier one with the same code; the label test changes nothing.
\<close>

lemma airport_loop_all_match:
  "\<forall>line\<in>set lines. re_search_quoted_pair line \<noteq> None \<Longrightarrow>
   \<exists>cat. airport_loop acc lines = Inr cat \<and>
         map_of cat = map_of (rev (List.map_filter port_entry lines) @ acc) \<and>
         (distinct (map fst acc) \<longrightarrow> distinct (map fst cat))"
proof (induction lines arbitrary: acc)
  case Nil
  then show ?case by (simp add: List.map_filter_simps)
next
  case (Cons line lines)
  then obtain code label where m: "re_search_quoted_pair line = Some (code, label)"
    by fastforce
  let ?acc = "AList.update code (re_sub_spaces label) acc"
  from Cons.prems have "\<forall>line\<in>set lines. re_search_quoted_pair line \<noteq> None" by simp
  from Cons.IH [OF this, of ?acc] obtain cat where
    cat: "airport_loop ?acc lines = Inr cat"
      "map_of cat = map_of (rev (List.map_filter port_entry lines) @ ?acc)"
      "distinct (map fst ?acc) \<longrightarrow> distinct (map fst cat)"
    by blast
  have "airport_loop acc (line # lines) = Inr cat"
    using m cat(1) by simp
  moreover have "map_of cat = map_of (rev (List.map_filter port_entry (line # lines)) @ acc)"
    using m cat(2)
    by (simp add: List.map_filter_simps port_entry_def map_of_append update_conv' map_add_upd_left fun_eq_iff map_add_def split: option.splits)
  moreover have "distinct (map fst acc) \<longrightarrow> distinct (map fst cat)"
    using cat(3) by (simp add: distinct_update)
  ultimately show ?case by blast
qed

text \<open>
  Claim C8. When every line of \<^verbatim>\<open>lines[302:893]\<close> matches the quoted-pair pattern,
  \<open>get_valid_airport_list\<close> returns a dictionary that holds the code of every such
  line, whatever its label says: its lookup is that of the lines' entries, the last
  entry of a code winning. No entry is left out by the test for unknown labels.
\<close>

theorem get_valid_airport_list_keeps_all:
  assumes "\<forall>line\<in>set (drop 302 (take 893 lines)). re_search_quoted_pair line \<noteq> None"
  shows "\<exists>cat. get_valid_airport_list lines = Inr cat \<and>
           distinct (map fst cat) \<and>
           map_of cat = map_of (rev (List.map_filter port_entry (drop 302 (take 893 lines)))) \<and>
           (\<forall>line\<in>set (drop 302 (take 893 lines)). \<forall>code label.
              re_search_quoted_pair line = Some (code, label) \<longrightarrow> code \<in> set (map fst cat))"
proof -
  let ?ls = "drop 302 (take 893 lines)"
  from airport_loop_all_match [OF assms, of "[]"] obtain cat where
    cat: "airport_loop [] ?ls = Inr cat"
      "map_of cat = map_of (rev (List.map_filter port_entry ?ls))"
      "distinct (map fst cat)"
    by auto
  have "code \<in> set (map fst cat)"
    if "line \<in> set ?ls" "re_search_quoted_pair line = Some (code, label)" for line code label
  proof -
    have "(code, re_sub_spaces label) \<in> set (rev (List.map_filter port_entry ?ls))"
      using that by (force simp: List.map_filter_def port_entry_def)
    then have "map_of (rev (List.map_filter port_entry ?ls)) code \<noteq> None"
      by (metis map_of_eq_None_iff fst_conv image_eqI)
    then have "map_of cat code \<noteq> None" by (simp add: cat(2))
    then show ?thesis by (simp add: map_of_eq_None_iff)
  qed
  with cat show ?thesis
    unfolding get_valid_airport_list_def by blast
qed

lemma example_XXX: "re_search_quoted_pair (port_line ''XXX'' ''NOT REPORTED/UNKNOWN  '') = Some (''XXX'', ''NOT REPORTED/UNKNOWN  '')"
  by (simp add: re_search_quoted_pair_def quoted_pair_def port_line_def)

lemma example_ALC: "re_search_quoted_pair (port_line ''ALC'' ''ALCAN, AK             '') = Some (''ALC'', ''ALCAN, AK             '')"
  by (simp add: re_search_quoted_pair_def quoted_pair_def port_line_def)

lemma example_slice: "drop 302 (take 893 example_code_book) = [port_line ''XXX'' ''NOT REPORTED/UNKNOWN  '', port_line ''ALC'' ''ALCAN, AK             '']"
  by (simp add: example_code_book_def)

lemma example_cat: "get_valid_airport_list example_code_book = Inr [(''XXX'', ''NOTREPORTED/UNKNOWN''), (''ALC'', ''ALCAN,AK'')]"
  by (simp add: get_valid_airport_list_def example_slice example_XXX example_ALC re_sub_spaces_def re_space_def)

theorem get_valid_airport_list_keeps_all_witness:
  "drop 302 (take 893 example_code_book) =
     [port_line ''XXX'' ''NOT REPORTED/UNKNOWN  '', port_line ''ALC'' ''ALCAN, AK             ''] \<and>
   re_search_quoted_pair (port_line ''XXX'' ''NOT REPORTED/UNKNOWN  '') \<noteq> None \<and>
   re_search_quoted_pair (port_line ''ALC'' ''ALCAN, AK             '') \<noteq> None \<and>
   get_valid_airport_list example_code_book =
     Inr [(''XXX'', ''NOTREPORTED/UNKNOWN''), (''ALC'', ''ALCAN,AK'')] \<and>
   (\<exists>cat. get_valid_airport_list example_code_book = Inr cat \<and> ''XXX'' \<in> set (map fst cat))"
proof -
  have h: "\<forall>line\<in>set (drop 302 (take 893 example_code_book)). re_search_quoted_pair line \<noteq> None"
    by (simp add: example_slice example_XXX example_ALC)
  from get_valid_airport_list_keeps_all [OF h] obtain cat where
    cat: "get_valid_airport_list example_code_book = Inr cat"
      "\<forall>line\<in>set (drop 302 (take 893 example_code_book)). \<forall>code label.
         re_search_quoted_pair line = Some (code, label) \<longrightarrow> code \<in> set (map fst cat)"
    by blast
  from cat(2) have "''XXX'' \<in> set (map fst cat)"
    using example_XXX by (simp add: example_slice)
  with cat(1) have "\<exists>cat. get_valid_airport_list example_code_book = Inr cat \<and> ''XXX'' \<in> set (map fst cat)"
    by blast
  then show ?thesis
    using example_cat by (simp add: example_slice example_XXX example_ALC)
qed


end
